theory Spec2Isabelle
  imports Main "HOL-Library.AList" "HOL-Library.Sublist"
begin

section \<open>JavaScript values, errors and outcomes\<close>

text \<open>
  The attribute code of the templating package (\<^verbatim>\<open>AttributeHandler\<close>,
  its subclasses, \<^verbatim>\<open>makeAttributeHandler\<close> and
  \<^verbatim>\<open>ElementAttributesUpdater\<close>) is embedded below, function by function.

  An attribute value is \<^verbatim>\<open>null\<close> or a string; the code never checks this, so the
  model also has \<^verbatim>\<open>undefined\<close> (the initial content of a hoisted \<^verbatim>\<open>var\<close>)
  and objects. \<open>JObj r s\<close> is the object with reference \<open>r\<close> whose conversion to a
  string is \<open>s\<close>; it is truthy and has no \<^verbatim>\<open>split\<close> method.
\<close>

datatype jsval = JUndefined | JNull | JStr string | JObj nat string

definition ToString :: "jsval \<Rightarrow> string" where
  "ToString v = (case v of
      JUndefined \<Rightarrow> ''undefined''
    | JNull \<Rightarrow> ''null''
    | JStr s \<Rightarrow> s
    | JObj r s \<Rightarrow> s)"

definition truthy :: "jsval \<Rightarrow> bool" where
  "truthy v = (case v of
      JUndefined \<Rightarrow> False
    | JNull \<Rightarrow> False
    | JStr s \<Rightarrow> s \<noteq> []
    | JObj r s \<Rightarrow> True)"

text \<open>
  \<open>MissingMethods\<close> is \<^verbatim>\<open>Error("Missing methods in subclass of 'BaseClassHandler'")\<close>,
  \<open>ExpectedInputOrOption\<close> is \<^verbatim>\<open>Error("Expected INPUT or OPTION element")\<close>, and
  \<open>TypeError\<close> is what the engine raises for a property access on \<^verbatim>\<open>null\<close> or a
  call of a method that does not exist.
\<close>

datatype error = MissingMethods | ExpectedInputOrOption | TypeError

text \<open>
  A call either returns or throws; in both cases the state reached is kept, since the
  mutations made before a \<^verbatim>\<open>throw\<close> stay made.
\<close>

datatype 'a outcome = Returned 'a | Threw error 'a

section \<open>Strings and arrays\<close>

text \<open>\<^verbatim>\<open>s.split(sep)\<close> for a one-character separator, and \<^verbatim>\<open>a.join(sep)\<close>.\<close>

fun js_split :: "char \<Rightarrow> string \<Rightarrow> string list" where
  "js_split sep [] = [[]]"
| "js_split sep (c # cs) =
     (if c = sep then [] # js_split sep cs
      else (case js_split sep cs of [] \<Rightarrow> [[c]] | w # ws \<Rightarrow> (c # w) # ws))"

fun js_join :: "string \<Rightarrow> string list \<Rightarrow> string" where
  "js_join sep [] = []"
| "js_join sep [x] = x"
| "js_join sep (x # y # ys) = x @ sep @ js_join sep (y # ys)"

text \<open>The three array helpers; each is a loop over the array that pushes onto a result.\<close>

fun arrayCompact :: "string list \<Rightarrow> string list" where
  "arrayCompact [] = []"
| "arrayCompact (item # array) =
     (if item \<noteq> [] then item # arrayCompact array else arrayCompact array)"

fun arrayContains :: "string list \<Rightarrow> string \<Rightarrow> bool" where
  "arrayContains [] item = False"
| "arrayContains (x # array) item = (if x = item then True else arrayContains array item)"

fun arrayWithout :: "string list \<Rightarrow> string \<Rightarrow> string list" where
  "arrayWithout [] item = []"
| "arrayWithout (x # array) item =
     (if x \<noteq> item then x # arrayWithout array item else arrayWithout array item)"

section \<open>The element\<close>

text \<open>
  The host's element, as far as the handlers touch it. \<open>ownerSVGElement\<close> is the test
  \<^verbatim>\<open>'ownerSVGElement' in elem\<close>, \<open>isActiveElement\<close> is
  \<^verbatim>\<open>element === document.activeElement\<close>, and \<open>parentChain\<close> lists the ancestors
  reached through \<^verbatim>\<open>parentNode\<close>, nearest first, each with its tag name and whether it
  is the active element. \<open>calls\<close> records every mutation the handlers make, in order.
  The class of an element is its \<^verbatim>\<open>class\<close> attribute: \<^verbatim>\<open>className\<close> (and
  \<^verbatim>\<open>className.baseVal\<close> of an SVG element) reads it, the empty string when absent, and
  an assignment to \<^verbatim>\<open>className\<close> writes it. \<^verbatim>\<open>setAttribute\<close> and
  \<^verbatim>\<open>setAttributeNS\<close> store the conversion of their argument to a string; the
  properties \<^verbatim>\<open>element[name]\<close> and \<^verbatim>\<open>element.value\<close> hold what was assigned to them.
\<close>

datatype dom_call =
    SetAttribute string jsval
  | RemoveAttribute string
  | SetAttributeNS string string jsval
  | RemoveAttributeNS string string
  | SetClassName string
  | SetProperty string bool
  | SetValue jsval

record element =
  tagName :: string
  ownerSVGElement :: bool
  isActiveElement :: bool
  parentChain :: "(string \<times> bool) list"
  attributes :: "string \<rightharpoonup> string"
  attributesNS :: "string \<times> string \<rightharpoonup> string"
  properties :: "string \<rightharpoonup> bool"
  valueProp :: jsval
  calls :: "dom_call list"

definition setAttribute :: "element \<Rightarrow> string \<Rightarrow> jsval \<Rightarrow> element" where
  "setAttribute e n v =
     e\<lparr>attributes := (attributes e)(n \<mapsto> ToString v), calls := calls e @ [SetAttribute n v]\<rparr>"

definition removeAttribute :: "element \<Rightarrow> string \<Rightarrow> element" where
  "removeAttribute e n =
     e\<lparr>attributes := (attributes e)(n := None), calls := calls e @ [RemoveAttribute n]\<rparr>"

definition setAttributeNS :: "element \<Rightarrow> string \<Rightarrow> string \<Rightarrow> jsval \<Rightarrow> element" where
  "setAttributeNS e ns n v =
     e\<lparr>attributesNS := (attributesNS e)((ns, n) \<mapsto> ToString v),
       calls := calls e @ [SetAttributeNS ns n v]\<rparr>"

definition removeAttributeNS :: "element \<Rightarrow> string \<Rightarrow> string \<Rightarrow> element" where
  "removeAttributeNS e ns n =
     e\<lparr>attributesNS := (attributesNS e)((ns, n) := None),
       calls := calls e @ [RemoveAttributeNS ns n]\<rparr>"

definition className :: "element \<Rightarrow> string" where
  "className e = (case attributes e ''class'' of None \<Rightarrow> [] | Some s \<Rightarrow> s)"

definition set_className :: "element \<Rightarrow> string \<Rightarrow> element" where
  "set_className e s =
     e\<lparr>attributes := (attributes e)(''class'' \<mapsto> s), calls := calls e @ [SetClassName s]\<rparr>"

definition set_property :: "element \<Rightarrow> string \<Rightarrow> bool \<Rightarrow> element" where
  "set_property e n b =
     e\<lparr>properties := (properties e)(n \<mapsto> b), calls := calls e @ [SetProperty n b]\<rparr>"

definition set_value :: "element \<Rightarrow> jsval \<Rightarrow> element" where
  "set_value e v = e\<lparr>valueProp := v, calls := calls e @ [SetValue v]\<rparr>"

section \<open>Attribute handlers\<close>

text \<open>
  The handler classes built with \<^verbatim>\<open>AttributeHandler.extend\<close>. An instance has the two
  fields the constructor sets, \<^verbatim>\<open>this.name\<close> and \<^verbatim>\<open>this.value\<close>.
\<close>

datatype handler_class =
    AttributeHandler
  | BaseClassHandler
  | ClassHandler
  | SVGClassHandler
  | BooleanHandler
  | ValueHandler
  | XlinkHandler

record handler =
  h_class :: handler_class
  h_name :: string
  h_value :: jsval

definition AttributeHandler_update :: "handler \<Rightarrow> element \<Rightarrow> jsval \<Rightarrow> jsval \<Rightarrow> element outcome" where
  "AttributeHandler_update this e oldValue v =
     (if v = JNull then
        (if oldValue \<noteq> JNull then Returned (removeAttribute e (h_name this)) else Returned e)
      else Returned (setAttribute e (h_name this) v))"

text \<open>
  The accessors a class (or a class it extends) defines; \<open>None\<close> where
  \<^verbatim>\<open>this.getCurrentValue\<close> or \<^verbatim>\<open>this.setValue\<close> is undefined.
\<close>

definition getCurrentValue :: "handler_class \<Rightarrow> (element \<Rightarrow> string) option" where
  "getCurrentValue c = (case c of
      ClassHandler \<Rightarrow> Some className
    | SVGClassHandler \<Rightarrow> Some className
    | _ \<Rightarrow> None)"

definition setValue :: "handler_class \<Rightarrow> (element \<Rightarrow> string \<Rightarrow> element) option" where
  "setValue c = (case c of
      ClassHandler \<Rightarrow> Some set_className
    | SVGClassHandler \<Rightarrow> Some (\<lambda>e s. setAttribute e ''class'' (JStr s))
    | _ \<Rightarrow> None)"

text \<open>
  \<^verbatim>\<open>v ? _arrayCompact(v.split(' ')) : []\<close>: a falsy value gives the empty array, a
  string its non-empty segments, and an object has no \<^verbatim>\<open>split\<close>.
\<close>

definition classes_of :: "jsval \<Rightarrow> string list option" where
  "classes_of v =
     (if truthy v then
        (case v of JStr s \<Rightarrow> Some (arrayCompact (js_split CHR '' '' s)) | _ \<Rightarrow> None)
      else Some [])"

text \<open>The two loops of \<^verbatim>\<open>BaseClassHandler.update\<close> over \<open>oldClasses\<close> and \<open>newClasses\<close>.\<close>

fun remove_old :: "string list \<Rightarrow> string list \<Rightarrow> string list \<Rightarrow> string list" where
  "remove_old newClasses [] classes = classes"
| "remove_old newClasses (c # oldClasses) classes =
     remove_old newClasses oldClasses
       (if \<not> arrayContains newClasses c then arrayWithout classes c else classes)"

fun add_new :: "string list \<Rightarrow> string list \<Rightarrow> string list \<Rightarrow> string list" where
  "add_new oldClasses [] classes = classes"
| "add_new oldClasses (c # newClasses) classes =
     add_new oldClasses newClasses
       (if \<not> arrayContains oldClasses c \<and> \<not> arrayContains classes c then classes @ [c]
        else classes)"

definition BaseClassHandler_update :: "handler \<Rightarrow> element \<Rightarrow> jsval \<Rightarrow> jsval \<Rightarrow> element outcome" where
  "BaseClassHandler_update this e oldValue v =
     (case (getCurrentValue (h_class this), setValue (h_class this)) of
        (Some getter, Some setter) \<Rightarrow>
          (case classes_of oldValue of
             None \<Rightarrow> Threw TypeError e
           | Some oldClasses \<Rightarrow>
               (case classes_of v of
                  None \<Rightarrow> Threw TypeError e
                | Some newClasses \<Rightarrow>
                    Returned (setter e (js_join '' ''
                      (add_new oldClasses newClasses
                        (remove_old newClasses oldClasses
                          (arrayCompact (js_split CHR '' '' (getter e)))))))))
      | _ \<Rightarrow> Threw MissingMethods e)"

text \<open>
  \<^verbatim>\<open>BooleanHandler.focused\<close>: the loop climbs from the \<^verbatim>\<open>OPTION\<close> element (whose own
  tag is not \<^verbatim>\<open>SELECT\<close>) to the first \<^verbatim>\<open>SELECT\<close> ancestor.
\<close>

fun select_focused :: "(string \<times> bool) list \<Rightarrow> bool" where
  "select_focused [] = False"
| "select_focused ((tag, active) # ps) =
     (if tag \<noteq> ''SELECT'' then select_focused ps else active)"

definition focused :: "element \<Rightarrow> error + bool" where
  "focused e =
     (if tagName e = ''INPUT'' then Inr (isActiveElement e)
      else if tagName e = ''OPTION'' then Inr (select_focused (parentChain e))
      else Inl ExpectedInputOrOption)"

text \<open>\<^verbatim>\<open>value == null\<close> holds of \<^verbatim>\<open>null\<close> and of \<^verbatim>\<open>undefined\<close>.\<close>

definition loosely_null :: "jsval \<Rightarrow> bool" where
  "loosely_null v = (v = JNull \<or> v = JUndefined)"

definition BooleanHandler_update :: "handler \<Rightarrow> element \<Rightarrow> jsval \<Rightarrow> jsval \<Rightarrow> element outcome" where
  "BooleanHandler_update this e oldValue v =
     (case focused e of
        Inl err \<Rightarrow> Threw err e
      | Inr f \<Rightarrow>
          (if \<not> f then
             (if loosely_null v then
                (if \<not> loosely_null oldValue then Returned (set_property e (h_name this) False)
                 else Returned e)
              else Returned (set_property e (h_name this) True))
           else Returned e))"

definition ValueHandler_update :: "handler \<Rightarrow> element \<Rightarrow> jsval \<Rightarrow> jsval \<Rightarrow> element outcome" where
  "ValueHandler_update this e oldValue v =
     (if \<not> isActiveElement e then Returned (set_value e v) else Returned e)"

definition NS :: string where
  "NS = ''http://www.w3.org/1999/xlink''"

definition XlinkHandler_update :: "handler \<Rightarrow> element \<Rightarrow> jsval \<Rightarrow> jsval \<Rightarrow> element outcome" where
  "XlinkHandler_update this e oldValue v =
     (if v = JNull then
        (if oldValue \<noteq> JNull then Returned (removeAttributeNS e NS (h_name this))
         else Returned e)
      else Returned (setAttributeNS e NS (h_name this) (h_value this)))"

text \<open>\<^verbatim>\<open>handler.update(element, oldValue, value)\<close>: the method found on the prototype chain.\<close>

definition handler_update :: "handler \<Rightarrow> element \<Rightarrow> jsval \<Rightarrow> jsval \<Rightarrow> element outcome" where
  "handler_update this e oldValue v = (case h_class this of
      AttributeHandler \<Rightarrow> AttributeHandler_update this e oldValue v
    | BaseClassHandler \<Rightarrow> BaseClassHandler_update this e oldValue v
    | ClassHandler \<Rightarrow> BaseClassHandler_update this e oldValue v
    | SVGClassHandler \<Rightarrow> BaseClassHandler_update this e oldValue v
    | BooleanHandler \<Rightarrow> BooleanHandler_update this e oldValue v
    | ValueHandler \<Rightarrow> ValueHandler_update this e oldValue v
    | XlinkHandler \<Rightarrow> XlinkHandler_update this e oldValue v)"

definition isSVGElement :: "element \<Rightarrow> bool" where
  "isSVGElement e = ownerSVGElement e"

definition makeAttributeHandler :: "element \<Rightarrow> string \<Rightarrow> jsval \<Rightarrow> handler" where
  "makeAttributeHandler e n v =
     (if n = ''class'' then
        (if isSVGElement e then \<lparr>h_class = SVGClassHandler, h_name = n, h_value = v\<rparr>
         else \<lparr>h_class = ClassHandler, h_name = n, h_value = v\<rparr>)
      else if (tagName e = ''OPTION'' \<and> n = ''selected'') \<or>
              (tagName e = ''INPUT'' \<and> n = ''checked'') then
        \<lparr>h_class = BooleanHandler, h_name = n, h_value = v\<rparr>
      else if (tagName e = ''TEXTAREA'' \<or> tagName e = ''INPUT'') \<and> n = ''value'' then
        \<lparr>h_class = ValueHandler, h_name = n, h_value = v\<rparr>
      else if take 6 n = ''xlink:'' then
        \<lparr>h_class = XlinkHandler, h_name = drop 6 n, h_value = v\<rparr>
      else \<lparr>h_class = AttributeHandler, h_name = n, h_value = v\<rparr>)"

section \<open>The updater\<close>

text \<open>
  \<^verbatim>\<open>this.elem\<close> and \<^verbatim>\<open>this.handlers\<close>. The handler table and the argument of
  \<^verbatim>\<open>update\<close> are objects used as dictionaries: association lists with distinct keys, in
  insertion order, which is the order of \<^verbatim>\<open>for (k in ...)\<close> for attribute names
  (a key that is an array index, and the keys \<^verbatim>\<open>__proto__\<close> and \<^verbatim>\<open>hasOwnProperty\<close>,
  which change what the object itself does, are not attribute names and are left out).
  \<open>invoked\<close> records each call \<^verbatim>\<open>handler.update(elem, oldValue, value)\<close> as the key of
  the handler with the two values, in order.
\<close>

record updater =
  elem :: element
  handlers :: "(string \<times> handler) list"
  invoked :: "(string \<times> jsval \<times> jsval) list"

definition ElementAttributesUpdater :: "element \<Rightarrow> updater" where
  "ElementAttributesUpdater e = \<lparr>elem = e, handlers = [], invoked = []\<rparr>"

definition hasOwnProperty :: "(string \<times> 'a) list \<Rightarrow> string \<Rightarrow> bool" where
  "hasOwnProperty obj k = (k \<in> set (map fst obj))"

text \<open>A \<^verbatim>\<open>for\<close> loop over keys whose body may throw: the exception ends the loop.\<close>

fun for_in :: "('k \<Rightarrow> 's \<Rightarrow> 's outcome) \<Rightarrow> 'k list \<Rightarrow> 's \<Rightarrow> 's outcome" where
  "for_in body [] s = Returned s"
| "for_in body (k # ks) s =
     (case body k s of Returned s' \<Rightarrow> for_in body ks s' | Threw err s' \<Rightarrow> Threw err s')"

text \<open>
  \<^verbatim>\<open>handler.value = value; handler.update(elem, oldValue, value)\<close> for the handler stored
  under \<open>k\<close>: the table holds the same object, so the new value shows there, and the
  method runs with \<^verbatim>\<open>this.value\<close> already set.
\<close>

definition invoke :: "string \<Rightarrow> handler \<Rightarrow> jsval \<Rightarrow> jsval \<Rightarrow> updater \<Rightarrow> updater outcome" where
  "invoke k h oldValue v u =
     (let this = h\<lparr>h_value := v\<rparr>;
          u1 = u\<lparr>handlers := AList.update k this (handlers u),
                 invoked := invoked u @ [(k, oldValue, v)]\<rparr>
      in case handler_update this (elem u1) oldValue v of
           Returned e' \<Rightarrow> Returned (u1\<lparr>elem := e'\<rparr>)
         | Threw err e' \<Rightarrow> Threw err (u1\<lparr>elem := e'\<rparr>))"

text \<open>
  The body of the first loop of \<^verbatim>\<open>update\<close>, for a key \<open>k\<close> of the handler table. The
  state is the function-scoped variable \<^verbatim>\<open>oldValue\<close> and the updater.
\<close>

definition remove_step :: "(string \<times> jsval) list \<Rightarrow> string \<Rightarrow> jsval \<times> updater \<Rightarrow> (jsval \<times> updater) outcome" where
  "remove_step newAttrs k s =
     (case s of (oldValue, u) \<Rightarrow>
        (if \<not> hasOwnProperty newAttrs k then
           (case map_of (handlers u) k of
              None \<Rightarrow> Threw TypeError (oldValue, u)
            | Some h \<Rightarrow>
                (case invoke k h (h_value h) JNull u of
                   Threw err u' \<Rightarrow> Threw err (h_value h, u')
                 | Returned u' \<Rightarrow>
                     Returned (h_value h, u'\<lparr>handlers := AList.delete k (handlers u')\<rparr>)))
         else Returned (oldValue, u)))"

text \<open>
  The body of the second loop, for an entry \<open>(k, v)\<close> of \<open>newAttrs\<close>.
  \<^verbatim>\<open>var handler = null\<close> resets the handler in every round; \<^verbatim>\<open>var oldValue;\<close> assigns
  nothing, so \<open>oldValue\<close> keeps what the last assignment left there when \<open>k\<close> has no
  handler and \<open>v\<close> is \<^verbatim>\<open>null\<close>. \<^verbatim>\<open>handlers.hasOwnProperty(k)\<close> is the lookup of \<open>k\<close>
  in the table, and \<^verbatim>\<open>handler.value = value\<close> on the handler \<^verbatim>\<open>null\<close> is a TypeError.
\<close>

definition attr_step :: "string \<times> jsval \<Rightarrow> jsval \<times> updater \<Rightarrow> (jsval \<times> updater) outcome" where
  "attr_step kv s =
     (case kv of (k, v) \<Rightarrow> case s of (staleValue, u) \<Rightarrow>
        (case (case map_of (handlers u) k of
                 None \<Rightarrow>
                   (if v \<noteq> JNull then
                      (let h = makeAttributeHandler (elem u) k v
                       in (Some h, JNull, u\<lparr>handlers := AList.update k h (handlers u)\<rparr>))
                    else (None, staleValue, u))
               | Some h \<Rightarrow> (Some h, h_value h, u)) of
           (handler, oldValue, u1) \<Rightarrow>
             (if oldValue \<noteq> v then
                (case handler of
                   None \<Rightarrow> Threw TypeError (oldValue, u1)
                 | Some h \<Rightarrow>
                     (case invoke k h oldValue v u1 of
                        Threw err u2 \<Rightarrow> Threw err (oldValue, u2)
                      | Returned u2 \<Rightarrow>
                          Returned (oldValue,
                            if v = JNull then u2\<lparr>handlers := AList.delete k (handlers u2)\<rparr>
                            else u2)))
              else Returned (oldValue, u1))))"

text \<open>
  \<^verbatim>\<open>ElementAttributesUpdater.prototype.update\<close>. The first loop runs over the keys the
  table has when it starts (a key is deleted only in its own round); \<open>oldValue\<close> is
  \<^verbatim>\<open>undefined\<close> until its first assignment.
\<close>

definition update :: "(string \<times> jsval) list \<Rightarrow> updater \<Rightarrow> updater outcome" where
  "update newAttrs u =
     (case for_in (remove_step newAttrs) (map fst (handlers u)) (JUndefined, u) of
        Threw err s1 \<Rightarrow> Threw err (snd s1)
      | Returned s1 \<Rightarrow>
          (case for_in attr_step newAttrs s1 of
             Threw err s2 \<Rightarrow> Threw err (snd s2)
           | Returned s2 \<Rightarrow> Returned (snd s2)))"

section \<open>Observations and well-formedness\<close>

text \<open>
  The state a call reaches, whether it returned or threw; the class tokens of a string, as
  \<^verbatim>\<open>BaseClassHandler.update\<close> reads them; and an element with no attribute, no
  property, no parent and no focus, for the concrete scenarios.
\<close>

fun state_of :: "'a outcome \<Rightarrow> 'a" where
  "state_of (Returned s) = s"
| "state_of (Threw err s) = s"

definition tokens :: "string \<Rightarrow> string list" where
  "tokens s = arrayCompact (js_split CHR '' '' s)"

definition plain_element :: "string \<Rightarrow> element" where
  "plain_element t =
     \<lparr>tagName = t, ownerSVGElement = False, isActiveElement = False, parentChain = [],
      attributes = Map.empty, attributesNS = Map.empty, properties = Map.empty,
      valueProp = JUndefined, calls = []\<rparr>"

text \<open>
  What the handlers read of an element and never write: its tag, whether it is an SVG
  element, and where the focus is.
\<close>

definition node_kind :: "element \<Rightarrow> string \<times> bool \<times> bool \<times> (string \<times> bool) list" where
  "node_kind e = (tagName e, ownerSVGElement e, isActiveElement e, parentChain e)"

text \<open>
  The argument of \<^verbatim>\<open>update\<close> as its comment asks for it: an object (no key twice) whose
  values are strings or \<^verbatim>\<open>null\<close>. A handler table is in order when it has no key twice
  and remembers no \<^verbatim>\<open>null\<close>; an updater is well formed when moreover every handler
  remembers a string and is the handler \<^verbatim>\<open>makeAttributeHandler\<close> makes for its key on
  this element.
\<close>

definition is_string :: "jsval \<Rightarrow> bool" where
  "is_string v = (case v of JStr s \<Rightarrow> True | _ \<Rightarrow> False)"

definition well_typed :: "(string \<times> jsval) list \<Rightarrow> bool" where
  "well_typed newAttrs =
     (distinct (map fst newAttrs) \<and>
      list_all (\<lambda>kv. snd kv = JNull \<or> is_string (snd kv)) newAttrs)"

definition table_ok :: "updater \<Rightarrow> bool" where
  "table_ok u =
     (distinct (map fst (handlers u)) \<and>
      list_all (\<lambda>kh. h_value (snd kh) \<noteq> JNull) (handlers u))"

definition wf_updater :: "updater \<Rightarrow> bool" where
  "wf_updater u =
     (distinct (map fst (handlers u)) \<and>
      list_all (\<lambda>kh. is_string (h_value (snd kh)) \<and>
                     snd kh = makeAttributeHandler (elem u) (fst kh) (h_value (snd kh)))
        (handlers u))"

text \<open>
  The removal call the first loop makes on a handler:
  \<^verbatim>\<open>handler.value = null; handler.update(elem, oldValue, null)\<close>.
\<close>

definition removal :: "handler \<Rightarrow> element \<Rightarrow> element outcome" where
  "removal h e = handler_update (h\<lparr>h_value := JNull\<rparr>) e (h_value h) JNull"

text \<open>
  \<open>untouched_by_focus e0 e\<close>: \<open>e\<close> is the element \<open>e0\<close> after some handler calls, in
  which a focused control kept its value and its boolean properties.
\<close>

definition untouched_by_focus :: "element \<Rightarrow> element \<Rightarrow> bool" where
  "untouched_by_focus e0 e =
     (node_kind e = node_kind e0 \<and>
      (if isActiveElement e0 then valueProp e = valueProp e0 else True) \<and>
      (if focused e0 = Inr True then properties e = properties e0 else True))"

text \<open>
  \<open>removed_value e1 e2 k v\<close>: what \<^verbatim>\<open>update({})\<close> has made of the value \<open>v\<close> tracked for
  the name \<open>k\<close>, where \<open>e1\<close> is the element when \<^verbatim>\<open>update({})\<close> is called and \<open>e2\<close> the
  element when it has returned, by the strategy of \<open>k\<close>. An attribute of the default or
  of the namespaced strategy is absent. The \<^verbatim>\<open>class\<close> attribute is present and holds,
  joined by spaces, the tokens it had on \<open>e1\<close> other than those of \<open>v\<close>. A boolean
  property is \<^verbatim>\<open>false\<close> and the value property \<^verbatim>\<open>null\<close> when the control does not
  hold the focus on \<open>e1\<close>; when it does, the property is what it was on \<open>e1\<close>.
  (\<^verbatim>\<open>makeAttributeHandler\<close> never makes a \<^verbatim>\<open>BaseClassHandler\<close>.)
\<close>

definition removed_value :: "element \<Rightarrow> element \<Rightarrow> string \<Rightarrow> jsval \<Rightarrow> bool" where
  "removed_value e1 e2 k v = (case h_class (makeAttributeHandler e1 k v) of
      AttributeHandler \<Rightarrow> attributes e2 k = None
    | XlinkHandler \<Rightarrow> attributesNS e2 (NS, drop 6 k) = None
    | ClassHandler \<Rightarrow>
        attributes e2 ''class'' =
          Some (js_join '' '' (filter (\<lambda>c. c \<notin> set (tokens (ToString v))) (tokens (className e1))))
    | SVGClassHandler \<Rightarrow>
        attributes e2 ''class'' =
          Some (js_join '' '' (filter (\<lambda>c. c \<notin> set (tokens (ToString v))) (tokens (className e1))))
    | BaseClassHandler \<Rightarrow> False
    | BooleanHandler \<Rightarrow>
        (if focused e1 = Inr False then properties e2 k = Some False
         else properties e2 k = properties e1 k)
    | ValueHandler \<Rightarrow>
        (if isActiveElement e1 then valueProp e2 = valueProp e1 else valueProp e2 = JNull))"


section \<open>Arrays, split and join\<close>

lemmas handler_defs = handler_update_def AttributeHandler_update_def BaseClassHandler_update_def
  BooleanHandler_update_def ValueHandler_update_def XlinkHandler_update_def
  getCurrentValue_def setValue_def classes_of_def truthy_def ToString_def focused_def
  loosely_null_def

lemmas dom_defs = setAttribute_def removeAttribute_def setAttributeNS_def removeAttributeNS_def
  className_def set_className_def set_property_def set_value_def

lemmas update_defs = update_def remove_step_def attr_step_def invoke_def hasOwnProperty_def
  makeAttributeHandler_def isSVGElement_def ElementAttributesUpdater_def Let_def

lemma arrayCompact_filter: "arrayCompact xs = filter (\<lambda>x. x \<noteq> []) xs"
  by (induction xs) auto

lemma arrayContains_set: "arrayContains xs x = (x \<in> set xs)"
  by (induction xs) auto

lemma arrayWithout_filter: "arrayWithout xs x = filter (\<lambda>y. y \<noteq> x) xs"
  by (induction xs) auto

lemma remove_old_filter:
  "remove_old new old live = filter (\<lambda>c. \<not> (c \<in> set old \<and> c \<notin> set new)) live"
proof (induction old arbitrary: live)
  case Nil
  then show ?case by simp
next
  case (Cons c old)
  show ?case
    by (simp add: Cons.IH arrayContains_set arrayWithout_filter) (auto intro: filter_cong)
qed

text \<open>
  The second loop of \<^verbatim>\<open>BaseClassHandler.update\<close>, exactly: the list it is given, followed
  by the tokens of the new value that are neither in the old value nor in that list, each
  at its first occurrence only (\<open>rev (remdups (rev xs))\<close> is \<open>xs\<close> without the later
  copies of its elements).
\<close>

lemma first_occurrences_Cons:
  "rev (remdups (rev (x # xs))) = x # rev (remdups (rev (filter (\<lambda>y. y \<noteq> x) xs)))"
proof -
  have "remdups (ys @ [x]) = filter (\<lambda>y. y \<noteq> x) (remdups ys) @ [x]" for ys
    by (induction ys) auto
  then show ?thesis
    by (simp add: rev_filter remdups_filter)
qed

lemma add_new_exact:
  "add_new old new cl =
     cl @ rev (remdups (rev (filter (\<lambda>c. c \<notin> set old \<and> c \<notin> set cl) new)))"
proof (induction new arbitrary: cl)
  case Nil
  then show ?case by simp
next
  case (Cons c new)
  have "filter (\<lambda>y. y \<noteq> c) (filter (\<lambda>d. d \<notin> set old \<and> d \<notin> set cl) new) =
        filter (\<lambda>d. d \<notin> set old \<and> d \<notin> set (cl @ [c])) new"
    by (auto intro: filter_cong)
  then show ?case
    by (simp add: Cons.IH arrayContains_set first_occurrences_Cons del: remdups.simps rev.simps)
qed

lemma count_first_occurrences:
  "length (filter ((=) c) (rev (remdups (rev xs)))) = (if c \<in> set xs then 1 else 0)"
proof -
  have "{x. c = x} \<inter> set xs = (if c \<in> set xs then {c} else {})"
    by auto
  then show ?thesis
    by (simp add: distinct_length_filter)
qed

lemma add_new_count:
  "length (filter ((=) c) (add_new old new cl)) =
     length (filter ((=) c) cl) + (if c \<in> set new \<and> c \<notin> set old \<and> c \<notin> set cl then 1 else 0)"
  by (simp add: add_new_exact count_first_occurrences del: remdups.simps rev.simps)

lemma class_update_tokens:
  "add_new old new (remove_old new old live) =
     filter (\<lambda>c. \<not> (c \<in> set old \<and> c \<notin> set new)) live @
     rev (remdups (rev (filter (\<lambda>c. c \<notin> set old \<and> c \<notin> set live) new)))"
proof -
  have "filter (\<lambda>c. c \<notin> set old \<and> c \<notin> set (filter (\<lambda>c. \<not> (c \<in> set old \<and> c \<notin> set new)) live)) new =
        filter (\<lambda>c. c \<notin> set old \<and> c \<notin> set live) new"
    by (auto intro: filter_cong)
  then show ?thesis
    by (simp only: add_new_exact remove_old_filter)
qed

lemma js_split_no_sep: "t \<in> set (js_split sep s) \<Longrightarrow> sep \<notin> set t"
  by (induction s arbitrary: t) (auto split: if_splits list.splits)

lemma js_split_word: "sep \<notin> set x \<Longrightarrow> js_split sep (x @ sep # r) = x # js_split sep r"
  by (induction x) auto

lemma js_split_single: "sep \<notin> set x \<Longrightarrow> js_split sep x = [x]"
  by (induction x) auto

text \<open>Joining clean tokens with a space and splitting again gives the tokens back.\<close>

lemma tokens_join:
  "\<forall>t \<in> set ts. t \<noteq> [] \<and> CHR '' '' \<notin> set t \<Longrightarrow> tokens (js_join '' '' ts) = ts"
proof (induction "'' ''" ts rule: js_join.induct)
  case 1
  then show ?case by (simp add: tokens_def)
next
  case (2 x)
  then show ?case by (simp add: tokens_def js_split_single)
next
  case (3 x y ys)
  then show ?case by (simp add: tokens_def js_split_word)
qed

lemma tokens_clean: "t \<in> set (tokens s) \<Longrightarrow> t \<noteq> [] \<and> CHR '' '' \<notin> set t"
  by (auto simp: tokens_def arrayCompact_filter dest: js_split_no_sep)

lemma tokens_join_filter: "tokens (js_join '' '' (filter P (tokens s))) = filter P (tokens s)"
  by (rule tokens_join) (auto dest: tokens_clean)

section \<open>Steps of the two loops\<close>

text \<open>The two loop bodies, case by case.\<close>

lemma attr_step_cases:
  "attr_step (k, v) (ov, u) =
    (case map_of (handlers u) k of
       None \<Rightarrow>
         (if v \<noteq> JNull then
            (case invoke k (makeAttributeHandler (elem u) k v) JNull v
                    (u\<lparr>handlers := AList.update k (makeAttributeHandler (elem u) k v) (handlers u)\<rparr>) of
               Threw err u2 \<Rightarrow> Threw err (JNull, u2)
             | Returned u2 \<Rightarrow> Returned (JNull, u2))
          else if ov \<noteq> JNull then Threw TypeError (ov, u) else Returned (ov, u))
     | Some h \<Rightarrow>
         (if h_value h \<noteq> v then
            (case invoke k h (h_value h) v u of
               Threw err u2 \<Rightarrow> Threw err (h_value h, u2)
             | Returned u2 \<Rightarrow>
                 Returned (h_value h,
                   if v = JNull then u2\<lparr>handlers := AList.delete k (handlers u2)\<rparr> else u2))
          else Returned (h_value h, u)))"
  by (simp add: attr_step_def Let_def split: option.splits outcome.splits)

lemma remove_step_cases:
  "remove_step M k (ov, u) =
    (if k \<in> fst ` set M then Returned (ov, u)
     else (case map_of (handlers u) k of
             None \<Rightarrow> Threw TypeError (ov, u)
           | Some h \<Rightarrow>
               (case invoke k h (h_value h) JNull u of
                  Threw err u' \<Rightarrow> Threw err (h_value h, u')
                | Returned u' \<Rightarrow>
                    Returned (h_value h, u'\<lparr>handlers := AList.delete k (handlers u')\<rparr>))))"
  by (simp add: remove_step_def hasOwnProperty_def)

lemma makeAttributeHandler_value [simp]:
  "(makeAttributeHandler e k w)\<lparr>h_value := v\<rparr> = makeAttributeHandler e k v"
  "h_value (makeAttributeHandler e k v) = v"
  by (simp_all add: makeAttributeHandler_def)

text \<open>The parts of the state after a step, whether it returned or threw.\<close>

lemma attr_step_elem:
  "elem (snd (state_of (attr_step (k, v) (ov, u)))) =
    (case map_of (handlers u) k of
       None \<Rightarrow> if v \<noteq> JNull
                then state_of (handler_update (makeAttributeHandler (elem u) k v) (elem u) JNull v)
                else elem u
     | Some h \<Rightarrow> if h_value h \<noteq> v
                then state_of (handler_update (h\<lparr>h_value := v\<rparr>) (elem u) (h_value h) v)
                else elem u)"
  by (simp add: attr_step_cases invoke_def Let_def split: option.splits outcome.splits)

lemma attr_step_invoked:
  "invoked (snd (state_of (attr_step (k, v) (ov, u)))) = invoked u @
    (case map_of (handlers u) k of
       None \<Rightarrow> if v \<noteq> JNull then [(k, JNull, v)] else []
     | Some h \<Rightarrow> if h_value h \<noteq> v then [(k, h_value h, v)] else [])"
  by (simp add: attr_step_cases invoke_def Let_def split: option.splits outcome.splits)

lemma attr_step_map_of_other:
  "k' \<noteq> k \<Longrightarrow> map_of (handlers (snd (state_of (attr_step (k, v) (ov, u))))) k' = map_of (handlers u) k'"
  by (simp add: attr_step_cases invoke_def Let_def update_conv' delete_conv' split: option.splits outcome.splits)

lemma attr_step_map_of_Returned:
  assumes "attr_step (k, v) (ov, u) = Returned (ov', u')"
    and "\<And>h. map_of (handlers u) k = Some h \<Longrightarrow> h_value h \<noteq> JNull"
  shows "map_of (handlers u') =
    (map_of (handlers u))(k :=
      (if v = JNull then None
       else Some ((case map_of (handlers u) k of
                     None \<Rightarrow> makeAttributeHandler (elem u) k v | Some h \<Rightarrow> h)\<lparr>h_value := v\<rparr>)))"
  using assms
  by (auto simp add: attr_step_cases invoke_def Let_def update_conv' delete_conv' fun_eq_iff
      split: option.splits outcome.splits if_splits)

lemma remove_step_elem:
  "elem (snd (state_of (remove_step M k (ov, u)))) =
    (if k \<in> fst ` set M then elem u
     else (case map_of (handlers u) k of
             None \<Rightarrow> elem u
           | Some h \<Rightarrow> state_of (handler_update (h\<lparr>h_value := JNull\<rparr>) (elem u) (h_value h) JNull)))"
  by (simp add: remove_step_cases invoke_def Let_def split: option.splits outcome.splits)

lemma remove_step_invoked:
  "invoked (snd (state_of (remove_step M k (ov, u)))) = invoked u @
    (if k \<in> fst ` set M then []
     else (case map_of (handlers u) k of None \<Rightarrow> [] | Some h \<Rightarrow> [(k, h_value h, JNull)]))"
  by (simp add: remove_step_cases invoke_def Let_def split: option.splits outcome.splits)

lemma remove_step_map_of_other:
  "k' \<noteq> k \<Longrightarrow> map_of (handlers (snd (state_of (remove_step M k (ov, u))))) k' = map_of (handlers u) k'"
  by (simp add: remove_step_cases invoke_def Let_def update_conv' delete_conv' split: option.splits outcome.splits)

lemma remove_step_map_of_Returned:
  assumes "remove_step M k (ov, u) = Returned (ov', u')"
  shows "map_of (handlers u') =
    (if k \<in> fst ` set M then map_of (handlers u) else (map_of (handlers u))(k := None))"
  using assms
  by (auto simp add: remove_step_cases invoke_def Let_def update_conv' delete_conv' fun_eq_iff
      split: option.splits outcome.splits if_splits)

section \<open>Invariants of update\<close>

lemma for_in_invariant:
  assumes "P s" and "\<And>k s. k \<in> set ks \<Longrightarrow> P s \<Longrightarrow> P (state_of (body k s))"
  shows "P (state_of (for_in body ks s))"
  using assms
proof (induction ks arbitrary: s)
  case Nil
  then show ?case by simp
next
  case (Cons k ks)
  have step: "P (state_of (body k s))"
    using Cons.prems by simp
  show ?case
  proof (cases "body k s")
    case (Returned s')
    with step have "P s'" by simp
    then have "P (state_of (for_in body ks s'))"
      using Cons.prems(2) by (intro Cons.IH) simp_all
    with Returned show ?thesis by simp
  next
    case (Threw err s')
    with step show ?thesis by simp
  qed
qed

lemma update_state:
  "state_of (update M u) =
    (case for_in (remove_step M) (map fst (handlers u)) (JUndefined, u) of
       Threw err s1 \<Rightarrow> snd s1
     | Returned s1 \<Rightarrow> snd (state_of (for_in attr_step M s1)))"
  by (simp add: update_def split: outcome.splits)

lemma update_invariant:
  assumes "P u"
    and "\<And>k s. P (snd s) \<Longrightarrow> P (snd (state_of (remove_step M k s)))"
    and "\<And>kv s. kv \<in> set M \<Longrightarrow> P (snd s) \<Longrightarrow> P (snd (state_of (attr_step kv s)))"
  shows "P (state_of (update M u))"
proof -
  let ?r = "for_in (remove_step M) (map fst (handlers u)) (JUndefined, u)"
  have 1: "P (snd (state_of ?r))"
    by (rule for_in_invariant[where P = "\<lambda>s. P (snd s)"]) (simp_all add: assms)
  show ?thesis
  proof (cases ?r)
    case (Returned s1)
    with 1 have "P (snd s1)" by simp
    then have "P (snd (state_of (for_in attr_step M s1)))"
      by (rule for_in_invariant[where P = "\<lambda>s. P (snd s)"]) (simp add: assms)
    with Returned show ?thesis by (simp add: update_state)
  next
    case (Threw err s1)
    with 1 show ?thesis by (simp add: update_state)
  qed
qed

lemma update_elem_invariant:
  assumes "\<And>h e ov v. P e \<Longrightarrow> P (state_of (handler_update h e ov v))" and "P (elem u)"
  shows "P (elem (state_of (update M u)))"
proof (rule update_invariant[where P = "\<lambda>u. P (elem u)"])
  show "P (elem u)" by fact
next
  fix k and s :: "jsval \<times> updater" assume "P (elem (snd s))"
  then show "P (elem (snd (state_of (remove_step M k s))))"
    by (cases s) (simp add: remove_step_elem assms(1) split: option.splits)
next
  fix kv and s :: "jsval \<times> updater" assume "kv \<in> set M" and p: "P (elem (snd s))"
  from p show "P (elem (snd (state_of (attr_step kv s))))"
    by (cases s; cases kv) (simp add: attr_step_elem assms(1) split: option.splits)
qed

lemma handler_update_kind: "node_kind (state_of (handler_update h e ov v)) = node_kind e"
  by (simp add: node_kind_def handler_defs dom_defs split: handler_class.splits option.splits sum.splits)

lemma makeAttributeHandler_kind:
  "node_kind e' = node_kind e \<Longrightarrow> makeAttributeHandler e' k v = makeAttributeHandler e k v"
  by (simp add: node_kind_def makeAttributeHandler_def isSVGElement_def)

lemma attr_step_kind: "node_kind (elem (snd (state_of (attr_step kv s)))) = node_kind (elem (snd s))"
  by (cases s; cases kv) (simp add: attr_step_elem handler_update_kind split: option.splits)

lemma update_kind: "node_kind (elem (state_of (update M u))) = node_kind (elem u)"
  by (rule update_elem_invariant[where P = "\<lambda>e. node_kind e = node_kind (elem u)"])
     (simp_all add: handler_update_kind)

lemma attr_step_distinct:
  "distinct (map fst (handlers (snd s))) \<Longrightarrow>
   distinct (map fst (handlers (snd (state_of (attr_step kv s)))))"
  by (cases s; cases kv)
     (simp add: attr_step_cases invoke_def Let_def distinct_update distinct_delete
        split: option.splits outcome.splits)

lemma remove_step_distinct:
  "distinct (map fst (handlers (snd s))) \<Longrightarrow>
   distinct (map fst (handlers (snd (state_of (remove_step M k s)))))"
  by (cases s)
     (simp add: remove_step_cases invoke_def Let_def distinct_update distinct_delete
        split: option.splits outcome.splits)

lemma update_distinct:
  "distinct (map fst (handlers u)) \<Longrightarrow> distinct (map fst (handlers (state_of (update M u))))"
  by (rule update_invariant[where P = "\<lambda>u. distinct (map fst (handlers u))"])
     (simp_all add: attr_step_distinct remove_step_distinct)

section \<open>The handler calls of one update\<close>

lemma attr_step_invoked_shape:
  "\<exists>tr. invoked (snd (state_of (attr_step (k, v) s))) = invoked (snd s) @ tr \<and>
        (tr = [] \<or> (\<exists>ov. tr = [(k, ov, v)]))"
  by (cases s) (simp add: attr_step_invoked split: option.splits)

lemma attr_loop_invoked:
  "\<exists>tr. invoked (snd (state_of (for_in attr_step M s))) = invoked (snd s) @ tr \<and>
        subseq (map (\<lambda>i. (fst i, snd (snd i))) tr) M"
proof (induction M arbitrary: s)
  case Nil
  then show ?case by simp
next
  case (Cons kv M)
  obtain k v where kv: "kv = (k, v)" by (cases kv)
  obtain tr0 where tr0: "invoked (snd (state_of (attr_step (k, v) s))) = invoked (snd s) @ tr0"
      "tr0 = [] \<or> (\<exists>ov. tr0 = [(k, ov, v)])"
    using attr_step_invoked_shape by blast
  show ?case
  proof (cases "attr_step (k, v) s")
    case (Returned s1)
    obtain tr1 where tr1: "invoked (snd (state_of (for_in attr_step M s1))) = invoked (snd s1) @ tr1"
        "subseq (map (\<lambda>i. (fst i, snd (snd i))) tr1) M"
      using Cons.IH by blast
    have "invoked (snd (state_of (for_in attr_step (kv # M) s))) = invoked (snd s) @ (tr0 @ tr1)"
      using Returned tr0(1) tr1(1) by (simp add: kv)
    moreover have "subseq (map (\<lambda>i. (fst i, snd (snd i))) (tr0 @ tr1)) (kv # M)"
      using tr0(2) tr1(2) by (auto simp: kv)
    ultimately show ?thesis by blast
  next
    case (Threw err s1)
    have "invoked (snd (state_of (for_in attr_step (kv # M) s))) = invoked (snd s) @ tr0"
      using Threw tr0(1) by (simp add: kv)
    moreover have "subseq (map (\<lambda>i. (fst i, snd (snd i))) tr0) (kv # M)"
      using tr0(2) by (auto simp: kv)
    ultimately show ?thesis by blast
  qed
qed

lemma remove_loop_invoked:
  "\<exists>tr. invoked (snd (state_of (for_in (remove_step M) ks s))) = invoked (snd s) @ tr \<and>
        (\<forall>i \<in> set tr. fst i \<in> set ks \<and> fst i \<notin> fst ` set M \<and> snd (snd i) = JNull)"
proof (rule for_in_invariant)
  show "\<exists>tr. invoked (snd s) = invoked (snd s) @ tr \<and>
        (\<forall>i \<in> set tr. fst i \<in> set ks \<and> fst i \<notin> fst ` set M \<and> snd (snd i) = JNull)"
    by simp
next
  fix k and s' :: "jsval \<times> updater"
  assume k: "k \<in> set ks"
    and "\<exists>tr. invoked (snd s') = invoked (snd s) @ tr \<and>
        (\<forall>i \<in> set tr. fst i \<in> set ks \<and> fst i \<notin> fst ` set M \<and> snd (snd i) = JNull)"
  then obtain tr where tr: "invoked (snd s') = invoked (snd s) @ tr"
      "\<forall>i \<in> set tr. fst i \<in> set ks \<and> fst i \<notin> fst ` set M \<and> snd (snd i) = JNull"
    by blast
  obtain ov u where s': "s' = (ov, u)" by (cases s')
  let ?new = "if k \<in> fst ` set M then []
     else (case map_of (handlers u) k of None \<Rightarrow> [] | Some h \<Rightarrow> [(k, h_value h, JNull)])"
  have "invoked (snd (state_of (remove_step M k s'))) = invoked (snd s) @ (tr @ ?new)"
    using tr(1) by (simp add: s' remove_step_invoked)
  moreover have "\<forall>i \<in> set (tr @ ?new). fst i \<in> set ks \<and> fst i \<notin> fst ` set M \<and> snd (snd i) = JNull"
  proof (cases "k \<in> fst ` set M")
    case True
    then show ?thesis using tr(2) by simp
  next
    case False
    then show ?thesis using tr(2) k by (auto split: option.splits simp: image_iff)
  qed
  ultimately show "\<exists>tr. invoked (snd (state_of (remove_step M k s'))) = invoked (snd s) @ tr \<and>
        (\<forall>i \<in> set tr. fst i \<in> set ks \<and> fst i \<notin> fst ` set M \<and> snd (snd i) = JNull)"
    by blast
qed

lemma update_invoked:
  "\<exists>pre post. invoked (state_of (update M u)) = invoked u @ pre @ post
     \<and> (\<forall>i \<in> set pre. fst i \<in> fst ` set (handlers u) \<and> fst i \<notin> fst ` set M \<and> snd (snd i) = JNull)
     \<and> subseq (map (\<lambda>i. (fst i, snd (snd i))) post) M"
proof -
  let ?r = "for_in (remove_step M) (map fst (handlers u)) (JUndefined, u)"
  obtain pre where pre: "invoked (snd (state_of ?r)) = invoked u @ pre"
      "\<forall>i \<in> set pre. fst i \<in> fst ` set (handlers u) \<and> fst i \<notin> fst ` set M \<and> snd (snd i) = JNull"
    using remove_loop_invoked[of M "map fst (handlers u)" "(JUndefined, u)"] by auto
  show ?thesis
  proof (cases ?r)
    case (Returned s1)
    obtain post where post: "invoked (snd (state_of (for_in attr_step M s1))) = invoked (snd s1) @ post"
        "subseq (map (\<lambda>i. (fst i, snd (snd i))) post) M"
      using attr_loop_invoked by blast
    have "invoked (state_of (update M u)) = invoked u @ pre @ post"
      using Returned pre(1) post(1) by (simp add: update_state)
    with pre(2) post(2) show ?thesis by blast
  next
    case (Threw err s1)
    have "invoked (state_of (update M u)) = invoked u @ pre @ []"
      using Threw pre(1) by (simp add: update_state)
    moreover have "subseq (map (\<lambda>i. (fst i, snd (snd i))) []) M" by simp
    ultimately show ?thesis using pre(2) by blast
  qed
qed

lemma attr_loop_invoked_other:
  assumes "k \<notin> fst ` set M"
  shows "filter (\<lambda>i. fst i = k) (invoked (snd (state_of (for_in attr_step M s)))) =
         filter (\<lambda>i. fst i = k) (invoked (snd s))"
proof -
  obtain tr where tr: "invoked (snd (state_of (for_in attr_step M s))) = invoked (snd s) @ tr"
      "subseq (map (\<lambda>i. (fst i, snd (snd i))) tr) M"
    using attr_loop_invoked by blast
  have "fst i \<noteq> k" if "i \<in> set tr" for i
  proof -
    from that have "(fst i, snd (snd i)) \<in> set (map (\<lambda>i. (fst i, snd (snd i))) tr)"
      by force
    with tr(2) obtain y where "y \<in> set M" and "(fst i, snd (snd i)) = y"
      by (rule list_emb_set)
    then have "(fst i, snd (snd i)) \<in> set M"
      by simp
    with assms show ?thesis by force
  qed
  then have "filter (\<lambda>i. fst i = k) tr = []"
    by (simp add: filter_empty_conv)
  with tr(1) show ?thesis by simp
qed

lemma remove_loop_invoked_other:
  assumes "k \<notin> set ks"
  shows "filter (\<lambda>i. fst i = k) (invoked (snd (state_of (for_in (remove_step M) ks s)))) =
         filter (\<lambda>i. fst i = k) (invoked (snd s))"
proof -
  obtain tr where tr: "invoked (snd (state_of (for_in (remove_step M) ks s))) = invoked (snd s) @ tr"
      "\<forall>i \<in> set tr. fst i \<in> set ks \<and> fst i \<notin> fst ` set M \<and> snd (snd i) = JNull"
    using remove_loop_invoked by blast
  from tr(2) assms have "filter (\<lambda>i. fst i = k) tr = []"
    by (auto simp: filter_empty_conv)
  with tr(1) show ?thesis by simp
qed

lemma remove_loop_untracked:
  assumes "map_of (handlers (snd s)) k = None"
  shows "map_of (handlers (snd (state_of (for_in (remove_step M) ks s)))) k = None"
proof (rule for_in_invariant[where P = "\<lambda>s. map_of (handlers (snd s)) k = None"])
  show "map_of (handlers (snd s)) k = None" by fact
next
  fix k' and s' :: "jsval \<times> updater"
  assume "map_of (handlers (snd s')) k = None"
  then show "map_of (handlers (snd (state_of (remove_step M k' s')))) k = None"
    by (cases s')
       (auto simp add: remove_step_cases invoke_def Let_def update_conv' delete_conv'
          split: option.splits outcome.splits)
qed

text \<open>The calls made for a name that has no handler when the second loop starts.\<close>

lemma attr_loop_key_Returned:
  assumes "for_in attr_step M s = Returned s'"
    and "distinct (map fst M)"
    and "map_of (handlers (snd s)) k = None"
  shows "filter (\<lambda>i. fst i = k) (invoked (snd s')) =
         filter (\<lambda>i. fst i = k) (invoked (snd s)) @
         (case map_of M k of
            None \<Rightarrow> []
          | Some v \<Rightarrow> if v \<noteq> JNull then [(k, JNull, v)] else [])"
  using assms
proof (induction M arbitrary: s)
  case Nil
  then show ?case by simp
next
  case (Cons kv M)
  obtain k0 v0 where kv: "kv = (k0, v0)" by (cases kv)
  obtain ov u where s: "s = (ov, u)" by (cases s)
  from Cons.prems(1) obtain s1 where s1: "attr_step (k0, v0) s = Returned s1"
      and rest: "for_in attr_step M s1 = Returned s'"
    by (auto simp: kv split: outcome.splits)
  have d: "distinct (map fst M)" and k0: "k0 \<notin> fst ` set M"
    using Cons.prems(2) by (auto simp: kv)
  have i1: "invoked (snd s1) = invoked u @
    (case map_of (handlers u) k0 of
       None \<Rightarrow> if v0 \<noteq> JNull then [(k0, JNull, v0)] else []
     | Some h \<Rightarrow> if h_value h \<noteq> v0 then [(k0, h_value h, v0)] else [])"
    using attr_step_invoked[of k0 v0 ov u] s1 by (simp add: s)
  show ?case
  proof (cases "k = k0")
    case True
    have "filter (\<lambda>i. fst i = k) (invoked (snd s')) = filter (\<lambda>i. fst i = k) (invoked (snd s1))"
      using attr_loop_invoked_other[of k M s1] k0 rest True by simp
    then show ?thesis
      using True Cons.prems(3) by (simp add: i1 kv s)
  next
    case False
    have "map_of (handlers (snd s1)) k = None"
      using attr_step_map_of_other[of k k0 v0 ov u] False s1 Cons.prems(3) by (simp add: s)
    from Cons.IH[OF rest d this] show ?thesis
      using False by (simp add: i1 kv s split: option.splits)
  qed
qed

lemma attr_loop_key_null:
  assumes "distinct (map fst M)"
    and "map_of (handlers (snd s)) k = None"
    and "map_of M k = Some JNull"
  shows "filter (\<lambda>i. fst i = k) (invoked (snd (state_of (for_in attr_step M s)))) =
         filter (\<lambda>i. fst i = k) (invoked (snd s))"
  using assms
proof (induction M arbitrary: s)
  case Nil
  then show ?case by simp
next
  case (Cons kv M)
  obtain k0 v0 where kv: "kv = (k0, v0)" by (cases kv)
  obtain ov u where s: "s = (ov, u)" by (cases s)
  have d: "distinct (map fst M)" and k0: "k0 \<notin> fst ` set M"
    using Cons.prems(1) by (auto simp: kv)
  let ?s1 = "state_of (attr_step (k0, v0) (ov, u))"
  have i1: "invoked (snd ?s1) = invoked u @
    (case map_of (handlers u) k0 of
       None \<Rightarrow> if v0 \<noteq> JNull then [(k0, JNull, v0)] else []
     | Some h \<Rightarrow> if h_value h \<noteq> v0 then [(k0, h_value h, v0)] else [])"
    using attr_step_invoked[of k0 v0 ov u] by simp
  have f1: "filter (\<lambda>i. fst i = k) (invoked (snd ?s1)) = filter (\<lambda>i. fst i = k) (invoked u)"
  proof (cases "k = k0")
    case True
    with Cons.prems(3) have "v0 = JNull" by (simp add: kv)
    with True Cons.prems(2) show ?thesis by (simp add: attr_step_invoked s)
  next
    case False
    then show ?thesis by (simp add: i1 split: option.splits)
  qed
  show ?case
  proof (cases "attr_step (k0, v0) (ov, u)")
    case (Threw err s1)
    with f1 show ?thesis by (simp add: kv s)
  next
    case (Returned s1)
    have "filter (\<lambda>i. fst i = k) (invoked (snd (state_of (for_in attr_step M s1)))) =
        filter (\<lambda>i. fst i = k) (invoked (snd s1))"
    proof (cases "k = k0")
      case True
      then show ?thesis using attr_loop_invoked_other[of k M s1] k0 by simp
    next
      case False
      have "map_of (handlers (snd s1)) k = None"
        using attr_step_map_of_other[of k k0 v0 ov u] False Returned Cons.prems(2) by (simp add: s)
      moreover have "map_of M k = Some JNull"
        using Cons.prems(3) False by (simp add: kv)
      ultimately show ?thesis
        using Cons.IH[OF d] by simp
    qed
    with f1 Returned show ?thesis by (simp add: kv s)
  qed
qed

section \<open>The handler table after update\<close>

lemma remove_loop_map_of:
  assumes "for_in (remove_step M) ks s = Returned s'"
  shows "map_of (handlers (snd s')) k =
    (if k \<in> set ks \<and> k \<notin> fst ` set M then None else map_of (handlers (snd s)) k)"
  using assms
proof (induction ks arbitrary: s)
  case Nil
  then show ?case by simp
next
  case (Cons k0 ks)
  obtain ov u where s: "s = (ov, u)" by (cases s)
  from Cons.prems obtain s1 where s1: "remove_step M k0 s = Returned s1"
      and rest: "for_in (remove_step M) ks s1 = Returned s'"
    by (auto split: outcome.splits)
  obtain ov1 u1 where s1': "s1 = (ov1, u1)" by (cases s1)
  have m1: "map_of (handlers u1) =
      (if k0 \<in> fst ` set M then map_of (handlers u) else (map_of (handlers u))(k0 := None))"
    using s1 by (simp add: s s1' remove_step_map_of_Returned)
  show ?case
    using Cons.IH[OF rest] by (simp add: s s1' m1)
qed

lemma attr_loop_map_of:
  assumes "for_in attr_step M s = Returned s'"
    and "distinct (map fst M)"
    and "\<forall>k h. map_of (handlers (snd s)) k = Some h \<longrightarrow> h_value h \<noteq> JNull"
  shows "map_of (handlers (snd s')) k =
    (case map_of M k of
       None \<Rightarrow> map_of (handlers (snd s)) k
     | Some v \<Rightarrow>
         if v = JNull then None
         else Some ((case map_of (handlers (snd s)) k of
                       None \<Rightarrow> makeAttributeHandler (elem (snd s)) k v
                     | Some h \<Rightarrow> h)\<lparr>h_value := v\<rparr>))"
  using assms
proof (induction M arbitrary: s)
  case Nil
  then show ?case by simp
next
  case (Cons kv M)
  obtain k0 v0 where kv: "kv = (k0, v0)" by (cases kv)
  obtain ov u where s: "s = (ov, u)" by (cases s)
  from Cons.prems(1) obtain s1 where s1: "attr_step (k0, v0) s = Returned s1"
      and rest: "for_in attr_step M s1 = Returned s'"
    by (auto simp: kv split: outcome.splits)
  obtain ov1 u1 where s1': "s1 = (ov1, u1)" by (cases s1)
  have nn: "\<And>h. map_of (handlers u) k0 = Some h \<Longrightarrow> h_value h \<noteq> JNull"
    using Cons.prems(3) by (simp add: s)
  have m1: "map_of (handlers u1) =
    (map_of (handlers u))(k0 :=
      (if v0 = JNull then None
       else Some ((case map_of (handlers u) k0 of
                     None \<Rightarrow> makeAttributeHandler (elem u) k0 v0 | Some h \<Rightarrow> h)\<lparr>h_value := v0\<rparr>)))"
    using s1 nn by (simp add: s s1' attr_step_map_of_Returned)
  have k1: "node_kind (elem u1) = node_kind (elem u)"
    using attr_step_kind[of "(k0, v0)" s] s1 by (simp add: s s1')
  have d: "distinct (map fst M)" and k0: "k0 \<notin> fst ` set M"
    using Cons.prems(2) by (auto simp: kv)
  have nn1: "\<forall>k h. map_of (handlers (snd s1)) k = Some h \<longrightarrow> h_value h \<noteq> JNull"
    using Cons.prems(3) by (auto simp: s s1' m1 split: if_splits option.splits)
  have ih: "map_of (handlers (snd s')) k =
    (case map_of M k of
       None \<Rightarrow> map_of (handlers u1) k
     | Some v \<Rightarrow>
         if v = JNull then None
         else Some ((case map_of (handlers u1) k of
                       None \<Rightarrow> makeAttributeHandler (elem u1) k v
                     | Some h \<Rightarrow> h)\<lparr>h_value := v\<rparr>))"
    using Cons.IH[OF rest d nn1] unfolding s1' snd_conv .
  show ?case
  proof (cases "k = k0")
    case True
    then have "map_of M k = None"
      using k0 by (simp add: map_of_eq_None_iff)
    with ih have "map_of (handlers (snd s')) k = map_of (handlers u1) k"
      by simp
    then show ?thesis
      using True by (simp add: m1 kv s split: option.splits)
  next
    case False
    then show ?thesis
      by (simp add: ih m1 kv s makeAttributeHandler_kind[OF k1] split: option.splits)
  qed
qed

lemma update_map_of:
  assumes "update M u = Returned u'"
    and "distinct (map fst M)"
    and "table_ok u"
  shows "map_of (handlers u') k =
    (case map_of M k of
       None \<Rightarrow> None
     | Some v \<Rightarrow>
         if v = JNull then None
         else Some ((case map_of (handlers u) k of
                       None \<Rightarrow> makeAttributeHandler (elem u) k v
                     | Some h \<Rightarrow> h)\<lparr>h_value := v\<rparr>))"
proof -
  let ?r = "for_in (remove_step M) (map fst (handlers u)) (JUndefined, u)"
  from assms(1) obtain s1 s2 where s1: "?r = Returned s1"
      and s2: "for_in attr_step M s1 = Returned s2" and u': "u' = snd s2"
    by (auto simp: update_def split: outcome.splits)
  have m1: "\<And>k. map_of (handlers (snd s1)) k =
      (if k \<in> fst ` set (handlers u) \<and> k \<notin> fst ` set M then None else map_of (handlers u) k)"
    using remove_loop_map_of[OF s1] by simp
  have nn: "\<And>k h. map_of (handlers u) k = Some h \<Longrightarrow> h_value h \<noteq> JNull"
    using assms(3) by (auto simp: table_ok_def list_all_iff dest!: map_of_SomeD)
  have nn1: "\<forall>k h. map_of (handlers (snd s1)) k = Some h \<longrightarrow> h_value h \<noteq> JNull"
    using nn by (auto simp: m1 split: if_splits)
  have k1: "node_kind (elem (snd s1)) = node_kind (elem u)"
    using for_in_invariant[where P = "\<lambda>s. node_kind (elem (snd s)) = node_kind (elem u)"
        and s = "(JUndefined, u)" and body = "remove_step M" and ks = "map fst (handlers u)"]
    by (auto simp: s1 remove_step_elem handler_update_kind split: option.splits)
  show ?thesis
  proof (cases "map_of M k")
    case None
    then have "k \<notin> fst ` set M" by (simp add: map_of_eq_None_iff)
    then have "map_of (handlers (snd s1)) k = None"
      by (auto simp: m1 map_of_eq_None_iff)
    then show ?thesis
      using attr_loop_map_of[OF s2 assms(2) nn1, where k = k] None by (simp add: u')
  next
    case (Some v)
    then have "k \<in> fst ` set M"
      by (metis map_of_eq_None_iff option.distinct(1))
    then have "map_of (handlers (snd s1)) k = map_of (handlers u) k"
      by (simp add: m1)
    then show ?thesis
      using attr_loop_map_of[OF s2 assms(2) nn1, where k = k] Some
      by (simp add: u' makeAttributeHandler_kind[OF k1] split: option.splits)
  qed
qed

lemma update_table_ok:
  assumes "update M u = Returned u'" and "distinct (map fst M)" and "table_ok u"
  shows "table_ok u'"
proof -
  have d: "distinct (map fst (handlers u'))"
    using update_distinct[of u M] assms(1,3) by (simp add: table_ok_def)
  have "h_value h \<noteq> JNull" if "(k, h) \<in> set (handlers u')" for k h
  proof -
    from that d have "map_of (handlers u') k = Some h" by simp
    then show ?thesis
      by (auto simp: update_map_of[OF assms] split: option.splits if_splits)
  qed
  with d show ?thesis
    by (auto simp: table_ok_def list_all_iff)
qed

lemma update_new_key_Returned:
  assumes "update M u = Returned u'"
    and "distinct (map fst M)"
    and "map_of (handlers u) k = None"
  shows "filter (\<lambda>i. fst i = k) (invoked u') =
         filter (\<lambda>i. fst i = k) (invoked u) @
         (case map_of M k of
            None \<Rightarrow> []
          | Some v \<Rightarrow> if v \<noteq> JNull then [(k, JNull, v)] else [])"
proof -
  let ?r = "for_in (remove_step M) (map fst (handlers u)) (JUndefined, u)"
  from assms(1) obtain s1 s2 where s1: "?r = Returned s1"
      and s2: "for_in attr_step M s1 = Returned s2" and u': "u' = snd s2"
    by (auto simp: update_def split: outcome.splits)
  have k: "k \<notin> set (map fst (handlers u))"
    using assms(3) by (simp add: map_of_eq_None_iff)
  have "filter (\<lambda>i. fst i = k) (invoked (snd s1)) = filter (\<lambda>i. fst i = k) (invoked u)"
    using remove_loop_invoked_other[OF k, of M "(JUndefined, u)"] by (simp add: s1)
  moreover have "map_of (handlers (snd s1)) k = None"
    using remove_loop_untracked[of "(JUndefined, u)" k M "map fst (handlers u)"] assms(3)
    by (simp add: s1)
  ultimately show ?thesis
    using attr_loop_key_Returned[OF s2 assms(2), of k] by (simp add: u')
qed

lemma update_null_key:
  assumes "distinct (map fst M)"
    and "map_of (handlers u) k = None"
    and "map_of M k = Some JNull"
  shows "filter (\<lambda>i. fst i = k) (invoked (state_of (update M u))) =
         filter (\<lambda>i. fst i = k) (invoked u)"
proof -
  let ?r = "for_in (remove_step M) (map fst (handlers u)) (JUndefined, u)"
  have k: "k \<notin> set (map fst (handlers u))"
    using assms(2) by (simp add: map_of_eq_None_iff)
  have 1: "filter (\<lambda>i. fst i = k) (invoked (snd (state_of ?r))) = filter (\<lambda>i. fst i = k) (invoked u)"
    using remove_loop_invoked_other[OF k, of M "(JUndefined, u)"] by simp
  have 2: "map_of (handlers (snd (state_of ?r))) k = None"
    using remove_loop_untracked[of "(JUndefined, u)" k M "map fst (handlers u)"] assms(2)
    by simp
  show ?thesis
  proof (cases ?r)
    case (Returned s1)
    with 1 2 attr_loop_key_null[OF assms(1) _ assms(3), of s1] show ?thesis
      by (simp add: update_state)
  next
    case (Threw err s1)
    with 1 show ?thesis by (simp add: update_state)
  qed
qed

lemma update_map_of_value:
  assumes "update M u = Returned u'"
    and "distinct (map fst M)"
    and "table_ok u"
    and "map_of (handlers u') k = Some h"
  shows "map_of M k = Some (h_value h)"
  using assms(4) by (auto simp: update_map_of[OF assms(1,2,3)] split: option.splits if_splits)

lemma handler_update_calls:
  "\<exists>c. calls (state_of (handler_update h e ov v)) = calls e @ c \<and> length c \<le> 1"
  by (simp add: handler_defs dom_defs split: handler_class.splits option.splits sum.splits)

lemma remove_loop_noop:
  "set ks \<subseteq> fst ` set M \<Longrightarrow> for_in (remove_step M) ks s = Returned s"
  by (induction ks) (auto simp: remove_step_def hasOwnProperty_def split: prod.splits)

lemma attr_loop_second:
  assumes "\<forall>kv \<in> set M. (case map_of (handlers u) (fst kv) of
              None \<Rightarrow> snd kv = JNull
            | Some h \<Rightarrow> h_value h = snd kv \<and> snd kv \<noteq> JNull)"
    and "ov \<noteq> JNull"
  shows "\<exists>ov'. for_in attr_step M (ov, u) =
    (if JNull \<in> snd ` set M then Threw TypeError (ov', u) else Returned (ov', u))"
  using assms
proof (induction M arbitrary: ov)
  case Nil
  then show ?case by simp
next
  case (Cons kv M)
  obtain k v where kv: "kv = (k, v)" by (cases kv)
  show ?case
  proof (cases "v = JNull")
    case True
    with Cons.prems have "attr_step (k, v) (ov, u) = Threw TypeError (ov, u)"
      by (auto simp: kv attr_step_cases split: option.splits)
    with True show ?thesis by (simp add: kv)
  next
    case False
    with Cons.prems(1) have "attr_step (k, v) (ov, u) = Returned (v, u)"
      by (auto simp: kv attr_step_cases split: option.splits)
    moreover from Cons.IH[of v] Cons.prems(1) False
    obtain ov' where "for_in attr_step M (v, u) =
        (if JNull \<in> snd ` set M then Threw TypeError (ov', u) else Returned (ov', u))"
      by auto
    ultimately show ?thesis
      using False by (auto simp: kv)
  qed
qed

text \<open>
  The second of two calls with the same map changes nothing, and it returns exactly when
  the map has no \<^verbatim>\<open>null\<close> entry.
\<close>

lemma update_second_call:
  assumes "distinct (map fst M)" and "table_ok u" and "update M u = Returned u'"
  shows "update M u' = (if JNull \<in> snd ` set M then Threw TypeError u' else Returned u')"
proof -
  note m = update_map_of[OF assms(3,1,2)]
  have "fst ` set (handlers u') = dom (map_of (handlers u'))"
    by (simp add: dom_map_of_conv_image_fst)
  also have "\<dots> \<subseteq> dom (map_of M)"
    by (auto simp: dom_def m split: option.splits)
  also have "\<dots> = fst ` set M"
    by (simp add: dom_map_of_conv_image_fst)
  finally have "set (map fst (handlers u')) \<subseteq> fst ` set M"
    by simp
  then have 1: "for_in (remove_step M) (map fst (handlers u')) (JUndefined, u') =
      Returned (JUndefined, u')"
    by (rule remove_loop_noop)
  have "\<forall>kv \<in> set M. (case map_of (handlers u') (fst kv) of
              None \<Rightarrow> snd kv = JNull
            | Some h \<Rightarrow> h_value h = snd kv \<and> snd kv \<noteq> JNull)"
  proof
    fix kv assume "kv \<in> set M"
    with assms(1) have "map_of M (fst kv) = Some (snd kv)" by simp
    then show "case map_of (handlers u') (fst kv) of
              None \<Rightarrow> snd kv = JNull
            | Some h \<Rightarrow> h_value h = snd kv \<and> snd kv \<noteq> JNull"
      by (simp add: m)
  qed
  then obtain ov' where "for_in attr_step M (JUndefined, u') =
      (if JNull \<in> snd ` set M then Threw TypeError (ov', u') else Returned (ov', u'))"
    using attr_loop_second[of M u' JUndefined] by auto
  with 1 show ?thesis
    by (simp add: update_def)
qed

section \<open>Handlers made by makeAttributeHandler\<close>

lemma wf_table_ok: "wf_updater u \<Longrightarrow> table_ok u"
  by (auto simp: wf_updater_def table_ok_def list_all_iff is_string_def split: jsval.splits)

lemma focused_kind: "node_kind e = node_kind e0 \<Longrightarrow> focused e = focused e0"
  by (simp add: node_kind_def focused_def)

lemma handler_update_untouched:
  assumes "untouched_by_focus e0 e"
  shows "untouched_by_focus e0 (state_of (handler_update h e ov v))"
proof -
  have k: "node_kind e = node_kind e0"
    using assms by (simp add: untouched_by_focus_def)
  have a: "isActiveElement e = isActiveElement e0"
    using k by (simp add: node_kind_def)
  have "node_kind (state_of (handler_update h e ov v)) = node_kind e0"
    using k by (simp add: handler_update_kind)
  moreover have "valueProp (state_of (handler_update h e ov v)) = valueProp e0" if "isActiveElement e0"
    using that assms a
    by (simp add: untouched_by_focus_def handler_defs dom_defs
        split: handler_class.splits option.splits sum.splits)
  moreover have "properties (state_of (handler_update h e ov v)) = properties e0"
    if "focused e0 = Inr True"
    using that assms focused_kind[OF k]
    by (simp add: untouched_by_focus_def handler_update_def AttributeHandler_update_def
        BaseClassHandler_update_def BooleanHandler_update_def ValueHandler_update_def
        XlinkHandler_update_def getCurrentValue_def setValue_def dom_defs
        split: handler_class.splits option.splits sum.splits)
  ultimately show ?thesis
    by (simp add: untouched_by_focus_def)
qed

lemma update_untouched: "untouched_by_focus (elem u) (elem (state_of (update M u)))"
  by (rule update_elem_invariant[where P = "untouched_by_focus (elem u)"])
     (simp_all add: handler_update_untouched, simp add: untouched_by_focus_def)

lemma classes_of_string: "classes_of (JStr s) = Some (tokens s)"
  by (cases s) (simp_all add: classes_of_def truthy_def tokens_def)

lemma removal_returns:
  assumes "h = makeAttributeHandler e0 k (JStr s)" and "node_kind e = node_kind e0"
  shows "\<exists>e'. removal h e = Returned e'"
  using assms
  by (auto simp add: removal_def makeAttributeHandler_def node_kind_def handler_update_def
      AttributeHandler_update_def BaseClassHandler_update_def BooleanHandler_update_def
      ValueHandler_update_def XlinkHandler_update_def getCurrentValue_def setValue_def
      classes_of_string classes_of_def truthy_def focused_def)

lemma classes_of_null: "classes_of JNull = Some []"
  by (simp add: classes_of_def truthy_def)

lemma makeAttributeHandler_class_iff:
  "(h_class (makeAttributeHandler e0 k v) = ClassHandler \<or>
    h_class (makeAttributeHandler e0 k v) = SVGClassHandler) = (k = ''class'')"
  by (simp add: makeAttributeHandler_def)

lemma makeAttributeHandler_not_base: "h_class (makeAttributeHandler e0 k v) \<noteq> BaseClassHandler"
  by (simp add: makeAttributeHandler_def)

lemma boolean_focusable:
  "h_class (makeAttributeHandler e0 k v) = BooleanHandler \<Longrightarrow> \<exists>b. focused e0 = Inr b"
  by (auto simp add: makeAttributeHandler_def focused_def split: if_splits)

text \<open>What the removal call of a handler made for \<open>k\<close> does, by strategy.\<close>

lemma removal_made:
  "removal (makeAttributeHandler e0 k (JStr s)) e =
     (case h_class (makeAttributeHandler e0 k (JStr s)) of
        AttributeHandler \<Rightarrow> Returned (removeAttribute e k)
      | BaseClassHandler \<Rightarrow> Threw MissingMethods e
      | ClassHandler \<Rightarrow>
          Returned (set_className e
            (js_join '' '' (filter (\<lambda>c. c \<notin> set (tokens s)) (tokens (className e)))))
      | SVGClassHandler \<Rightarrow>
          Returned (setAttribute e ''class''
            (JStr (js_join '' '' (filter (\<lambda>c. c \<notin> set (tokens s)) (tokens (className e))))))
      | BooleanHandler \<Rightarrow>
          (case focused e of
             Inl err \<Rightarrow> Threw err e
           | Inr f \<Rightarrow> if f then Returned e else Returned (set_property e k False))
      | ValueHandler \<Rightarrow> if isActiveElement e then Returned e else Returned (set_value e JNull)
      | XlinkHandler \<Rightarrow> Returned (removeAttributeNS e NS (drop 6 k)))"
  by (simp add: removal_def makeAttributeHandler_def handler_update_def AttributeHandler_update_def
      BaseClassHandler_update_def BooleanHandler_update_def ValueHandler_update_def
      XlinkHandler_update_def getCurrentValue_def setValue_def classes_of_string classes_of_null
      loosely_null_def remove_old_filter tokens_def split: sum.splits)

lemma className_set [simp]:
  "className (set_className e s) = s"
  "className (setAttribute e ''class'' (JStr s)) = s"
  "k \<noteq> ''class'' \<Longrightarrow> className (removeAttribute e k) = className e"
  "className (removeAttributeNS e ns n) = className e"
  "className (set_property e k b) = className e"
  "className (set_value e v) = className e"
  by (simp_all add: dom_defs ToString_def)

lemma class_handler_update:
  "handler_update (makeAttributeHandler e ''class'' x) e1 (JStr ov) (JStr v) =
     Returned (if isSVGElement e
       then setAttribute e1 ''class'' (JStr (js_join '' ''
              (add_new (tokens ov) (tokens v) (remove_old (tokens v) (tokens ov) (tokens (className e1))))))
       else set_className e1 (js_join '' ''
              (add_new (tokens ov) (tokens v) (remove_old (tokens v) (tokens ov) (tokens (className e1))))))"
  by (simp add: makeAttributeHandler_def handler_update_def BaseClassHandler_update_def
      getCurrentValue_def setValue_def classes_of_string tokens_def)

lemma class_handler_tokens:
  "\<exists>e'. handler_update (makeAttributeHandler e ''class'' (JStr v)) e (JStr ov) (JStr v) = Returned e'
     \<and> tokens (className e') =
         filter (\<lambda>c. \<not> (c \<in> set (tokens ov) \<and> c \<notin> set (tokens v))) (tokens (className e)) @
         rev (remdups (rev (filter (\<lambda>c. c \<notin> set (tokens ov) \<and> c \<notin> set (tokens (className e))) (tokens v))))"
proof -
  let ?ts = "filter (\<lambda>c. \<not> (c \<in> set (tokens ov) \<and> c \<notin> set (tokens v))) (tokens (className e)) @
         rev (remdups (rev (filter (\<lambda>c. c \<notin> set (tokens ov) \<and> c \<notin> set (tokens (className e))) (tokens v))))"
  have "\<forall>t \<in> set ?ts. t \<noteq> [] \<and> CHR '' '' \<notin> set t"
    by (auto dest: tokens_clean)
  then have "tokens (js_join '' '' ?ts) = ?ts"
    by (rule tokens_join)
  then show ?thesis
    by (simp add: class_handler_update class_update_tokens del: remdups.simps rev.simps)
qed

lemma makeAttributeHandler_tag:
  "tagName e = tagName e' \<Longrightarrow> ownerSVGElement e = ownerSVGElement e' \<Longrightarrow>
   makeAttributeHandler e k v = makeAttributeHandler e' k v"
  by (simp add: makeAttributeHandler_def isSVGElement_def)

lemma removal_class_frame:
  "k2 \<noteq> ''class'' \<Longrightarrow>
   attributes (state_of (removal (makeAttributeHandler e0 k2 (JStr s2)) e)) ''class'' =
   attributes e ''class''"
  using makeAttributeHandler_class_iff[of e0 k2 "JStr s2"]
  by (auto simp add: removal_made dom_defs split: handler_class.splits sum.splits)

lemma removal_establishes:
  assumes "untouched_by_focus e0 e"
    and "k = ''class'' \<longrightarrow> attributes e ''class'' = attributes e0 ''class''"
  shows "removed_value e0 (state_of (removal (makeAttributeHandler e0 k (JStr s)) e)) k (JStr s)"
proof -
  have kd: "node_kind e = node_kind e0"
    using assms by (simp add: untouched_by_focus_def)
  have f: "focused e = focused e0"
    by (rule focused_kind[OF kd])
  have a: "isActiveElement e = isActiveElement e0"
    using kd by (simp add: node_kind_def)
  show ?thesis
  proof (cases "h_class (makeAttributeHandler e0 k (JStr s))")
    case AttributeHandler
    then show ?thesis
      by (simp add: removed_value_def removal_made removeAttribute_def)
  next
    case BaseClassHandler
    then show ?thesis by (simp add: makeAttributeHandler_not_base)
  next
    case ClassHandler
    then have "k = ''class''"
      using makeAttributeHandler_class_iff[of e0 k "JStr s"] by auto
    with assms(2) have "className e = className e0"
      by (simp add: className_def)
    with ClassHandler show ?thesis
      by (simp add: removed_value_def removal_made ToString_def set_className_def)
  next
    case SVGClassHandler
    then have "k = ''class''"
      using makeAttributeHandler_class_iff[of e0 k "JStr s"] by auto
    with assms(2) have "className e = className e0"
      by (simp add: className_def)
    with SVGClassHandler show ?thesis
      by (simp add: removed_value_def removal_made ToString_def setAttribute_def)
  next
    case BooleanHandler
    then show ?thesis
      using assms(1) f boolean_focusable[OF BooleanHandler]
      by (auto simp add: removed_value_def removal_made set_property_def untouched_by_focus_def
          split: sum.splits if_splits)
  next
    case ValueHandler
    then show ?thesis
      using assms(1) a
      by (simp add: removed_value_def removal_made set_value_def untouched_by_focus_def)
  next
    case XlinkHandler
    then show ?thesis
      by (simp add: removed_value_def removal_made removeAttributeNS_def)
  qed
qed

lemma removal_preserves:
  assumes "removed_value e0 e k v"
    and "untouched_by_focus e0 e"
    and "k2 \<noteq> k"
  shows "removed_value e0 (state_of (removal (makeAttributeHandler e0 k2 (JStr s2)) e)) k v"
proof -
  let ?h2 = "makeAttributeHandler e0 k2 (JStr s2)"
  let ?e' = "state_of (removal ?h2 e)"
  have kd: "node_kind e = node_kind e0"
    using assms(2) by (simp add: untouched_by_focus_def)
  have f: "focused e = focused e0"
    by (rule focused_kind[OF kd])
  have a: "isActiveElement e = isActiveElement e0"
    using kd by (simp add: node_kind_def)
  have c2: "(h_class ?h2 = ClassHandler \<or> h_class ?h2 = SVGClassHandler) = (k2 = ''class'')"
    by (rule makeAttributeHandler_class_iff)
  have at: "attributes ?e' k = None" if "attributes e k = None" "k \<noteq> ''class''"
    using that c2 by (auto simp add: removal_made dom_defs split: handler_class.splits sum.splits)
  have cl: "attributes ?e' ''class'' = attributes e ''class''" if "k = ''class''"
    using that assms(3) by (intro removal_class_frame) simp
  have ns: "attributesNS ?e' x = None" if "attributesNS e x = None" for x
    using that by (auto simp add: removal_made dom_defs split: handler_class.splits sum.splits)
  have pr: "properties ?e' k = Some False" if "properties e k = Some False"
    using that assms(3) by (auto simp add: removal_made dom_defs split: handler_class.splits sum.splits)
  have va: "valueProp ?e' = JNull" if "valueProp e = JNull"
    using that by (auto simp add: removal_made dom_defs split: handler_class.splits sum.splits)
  have pu: "properties ?e' k = properties e0 k"
    if "properties e k = properties e0 k" "focused e0 \<noteq> Inr False"
    using that f assms(3)
    by (auto simp add: removal_made dom_defs split: handler_class.splits sum.splits)
  have vu: "valueProp ?e' = valueProp e0" if "valueProp e = valueProp e0" "isActiveElement e0"
    using that a by (auto simp add: removal_made dom_defs split: handler_class.splits sum.splits)
  show ?thesis
  proof (cases "h_class (makeAttributeHandler e0 k v)")
    case AttributeHandler
    then have "k \<noteq> ''class''"
      using makeAttributeHandler_class_iff[of e0 k v] by auto
    with assms(1) AttributeHandler show ?thesis
      by (simp add: removed_value_def at)
  next
    case BaseClassHandler
    then show ?thesis by (simp add: makeAttributeHandler_not_base)
  next
    case ClassHandler
    then have "k = ''class''"
      using makeAttributeHandler_class_iff[of e0 k v] by auto
    with assms(1) ClassHandler show ?thesis
      by (simp add: removed_value_def cl)
  next
    case SVGClassHandler
    then have "k = ''class''"
      using makeAttributeHandler_class_iff[of e0 k v] by auto
    with assms(1) SVGClassHandler show ?thesis
      by (simp add: removed_value_def cl)
  next
    case BooleanHandler
    with assms(1) show ?thesis
      by (auto simp add: removed_value_def pr pu split: if_splits)
  next
    case ValueHandler
    with assms(1) show ?thesis
      by (auto simp add: removed_value_def va vu split: if_splits)
  next
    case XlinkHandler
    with assms(1) show ?thesis
      by (simp add: removed_value_def ns)
  qed
qed

section \<open>Well-formed updaters\<close>

lemma wf_updater_iff:
  "wf_updater u \<longleftrightarrow>
     distinct (map fst (handlers u)) \<and>
     (\<forall>k h. map_of (handlers u) k = Some h \<longrightarrow>
        is_string (h_value h) \<and> h = makeAttributeHandler (elem u) k (h_value h))"
proof -
  have "(\<forall>kh \<in> set (handlers u). is_string (h_value (snd kh)) \<and>
            snd kh = makeAttributeHandler (elem u) (fst kh) (h_value (snd kh))) =
        (\<forall>k h. map_of (handlers u) k = Some h \<longrightarrow>
            is_string (h_value h) \<and> h = makeAttributeHandler (elem u) k (h_value h))"
    if "distinct (map fst (handlers u))"
    using that by force
  then show ?thesis
    by (auto simp: wf_updater_def list_all_iff)
qed

lemma made_update_returns:
  assumes "node_kind e = node_kind e0"
    and "v = JNull \<or> is_string v"
    and "ov = JNull \<or> is_string ov"
  shows "\<exists>e'. handler_update (makeAttributeHandler e0 k v) e ov v = Returned e'"
proof -
  let ?h = "makeAttributeHandler e0 k v"
  have c: "\<exists>ts. classes_of x = Some ts" if "x = JNull \<or> is_string x" for x
    using that by (cases x) (auto simp: classes_of_null classes_of_string is_string_def)
  have f: "focused e = focused e0"
    by (rule focused_kind[OF assms(1)])
  show ?thesis
  proof (cases "h_class ?h")
    case AttributeHandler
    then show ?thesis
      by (simp add: handler_update_def AttributeHandler_update_def)
  next
    case BaseClassHandler
    then show ?thesis
      by (simp add: makeAttributeHandler_not_base)
  next
    case ClassHandler
    with c[OF assms(2)] c[OF assms(3)] show ?thesis
      by (auto simp add: handler_update_def BaseClassHandler_update_def getCurrentValue_def
          setValue_def)
  next
    case SVGClassHandler
    with c[OF assms(2)] c[OF assms(3)] show ?thesis
      by (auto simp add: handler_update_def BaseClassHandler_update_def getCurrentValue_def
          setValue_def)
  next
    case BooleanHandler
    with boolean_focusable[OF BooleanHandler] f show ?thesis
      by (auto simp add: handler_update_def BooleanHandler_update_def)
  next
    case ValueHandler
    then show ?thesis
      by (simp add: handler_update_def ValueHandler_update_def)
  next
    case XlinkHandler
    then show ?thesis
      by (simp add: handler_update_def XlinkHandler_update_def)
  qed
qed

lemma invoke_made_returns:
  assumes "node_kind (elem u) = node_kind e0"
    and "v = JNull \<or> is_string v"
    and "ov = JNull \<or> is_string ov"
  shows "\<exists>u'. invoke k (makeAttributeHandler e0 k w) ov v u = Returned u'"
  using made_update_returns[OF assms, of k]
  by (auto simp add: invoke_def Let_def)

lemma attr_step_Threw_wf:
  assumes "wf_updater u" and "v = JNull \<or> is_string v" and "attr_step (k, v) (ov, u) = Threw err s'"
  shows "s' = (ov, u)"
proof (cases "map_of (handlers u) k")
  case None
  show ?thesis
  proof (cases "v = JNull")
    case True
    with None assms(3) show ?thesis
      by (auto simp: attr_step_cases split: if_splits)
  next
    case False
    obtain u2 where "invoke k (makeAttributeHandler (elem u) k v) JNull v
        (u\<lparr>handlers := AList.update k (makeAttributeHandler (elem u) k v) (handlers u)\<rparr>) = Returned u2"
      using invoke_made_returns[where u = "u\<lparr>handlers := AList.update k (makeAttributeHandler (elem u) k v) (handlers u)\<rparr>"
          and ?e0.0 = "elem u" and v = v and ov = JNull and k = k and w = v] assms(2)
      by auto
    with None False assms(3) show ?thesis
      by (simp add: attr_step_cases)
  qed
next
  case (Some h)
  with assms(1) have h: "is_string (h_value h)" "h = makeAttributeHandler (elem u) k (h_value h)"
    by (auto simp: wf_updater_iff)
  obtain u2 where "invoke k h (h_value h) v u = Returned u2"
    using invoke_made_returns[where u = u and ?e0.0 = "elem u" and v = v and ov = "h_value h"
        and k = k and w = "h_value h"] assms(2) h
    by auto
  with Some assms(3) show ?thesis
    by (simp add: attr_step_cases split: if_splits)
qed

lemma attr_step_wf:
  assumes "wf_updater (snd s)" and "snd kv = JNull \<or> is_string (snd kv)"
  shows "wf_updater (snd (state_of (attr_step kv s)))"
proof -
  obtain k v where kv: "kv = (k, v)" by (cases kv)
  obtain ov u where s: "s = (ov, u)" by (cases s)
  have wf: "wf_updater u" using assms(1) by (simp add: s)
  have v: "v = JNull \<or> is_string v" using assms(2) by (simp add: kv)
  show ?thesis
  proof (cases "attr_step (k, v) (ov, u)")
    case (Threw err s')
    with attr_step_Threw_wf[OF wf v Threw] wf show ?thesis
      by (simp add: kv s)
  next
    case (Returned s')
    obtain ov' u' where s': "s' = (ov', u')" by (cases s')
    have d: "distinct (map fst (handlers u'))"
      using attr_step_distinct[of s kv] wf Returned by (simp add: kv s s' wf_updater_def)
    have kd: "node_kind (elem u') = node_kind (elem u)"
      using attr_step_kind[of kv s] Returned by (simp add: kv s s')
    have nn: "\<And>h. map_of (handlers u) k = Some h \<Longrightarrow> h_value h \<noteq> JNull"
      using wf by (force simp: wf_updater_iff is_string_def)
    note m = attr_step_map_of_Returned[OF Returned[unfolded s'] nn]
    have "is_string (h_value h) \<and> h = makeAttributeHandler (elem u') k' (h_value h)"
      if t: "map_of (handlers u') k' = Some h" for k' h
    proof (cases "k' = k")
      case False
      with t wf show ?thesis
        by (simp add: m wf_updater_iff makeAttributeHandler_kind[OF kd])
    next
      case True
      with t have nv: "v \<noteq> JNull"
          and h: "h = (case map_of (handlers u) k of
                     None \<Rightarrow> makeAttributeHandler (elem u) k v | Some h \<Rightarrow> h)\<lparr>h_value := v\<rparr>"
        by (auto simp: m split: if_splits)
      have "h = makeAttributeHandler (elem u) k v"
      proof (cases "map_of (handlers u) k")
        case None
        with h show ?thesis by simp
      next
        case (Some h0)
        with wf have "h0 = makeAttributeHandler (elem u) k (h_value h0)"
          by (auto simp: wf_updater_iff)
        then have "h0\<lparr>h_value := v\<rparr> = makeAttributeHandler (elem u) k v"
          using makeAttributeHandler_value(1)[where e = "elem u" and k = k and w = "h_value h0" and v = v] by simp
        with h Some show ?thesis by simp
      qed
      with nv v True show ?thesis
        by (simp add: makeAttributeHandler_kind[OF kd])
    qed
    with d Returned show ?thesis
      by (simp add: kv s s' wf_updater_iff)
  qed
qed

lemma remove_step_wf:
  assumes "wf_updater (snd s)"
  shows "wf_updater (snd (state_of (remove_step M k s)))"
proof -
  obtain ov u where s: "s = (ov, u)" by (cases s)
  have wf: "wf_updater u" using assms(1) by (simp add: s)
  show ?thesis
  proof (cases "remove_step M k (ov, u)")
    case (Threw err s')
    have "s' = (ov, u)"
    proof (cases "map_of (handlers u) k")
      case None
      with Threw show ?thesis
        by (auto simp: remove_step_cases split: if_splits)
    next
      case (Some h)
      with wf have h: "is_string (h_value h)" "h = makeAttributeHandler (elem u) k (h_value h)"
        by (auto simp: wf_updater_iff)
      obtain u2 where "invoke k h (h_value h) JNull u = Returned u2"
        using invoke_made_returns[where u = u and ?e0.0 = "elem u" and v = JNull
            and ov = "h_value h" and k = k and w = "h_value h"] h
        by auto
      with Some Threw show ?thesis
        by (simp add: remove_step_cases split: if_splits)
    qed
    with Threw wf show ?thesis
      by (simp add: s)
  next
    case (Returned s')
    obtain ov' u' where s': "s' = (ov', u')" by (cases s')
    have d: "distinct (map fst (handlers u'))"
      using remove_step_distinct[of s M k] wf Returned by (simp add: s s' wf_updater_def)
    have kd: "node_kind (elem u') = node_kind (elem u)"
      using remove_step_elem[of M k ov u] Returned
      by (simp add: s' handler_update_kind split: if_splits option.splits)
    note m = remove_step_map_of_Returned[OF Returned[unfolded s']]
    have "is_string (h_value h) \<and> h = makeAttributeHandler (elem u') k' (h_value h)"
      if "map_of (handlers u') k' = Some h" for k' h
      using that wf
      by (auto simp: m wf_updater_iff makeAttributeHandler_kind[OF kd] split: if_splits)
    with d Returned show ?thesis
      by (simp add: s s' wf_updater_iff)
  qed
qed

text \<open>
  Every state an updater reaches from a new one through calls with string or
  \<^verbatim>\<open>null\<close> values is well formed, whether the calls return or throw.
\<close>

lemma wf_new: "wf_updater (ElementAttributesUpdater e)"
  by (simp add: wf_updater_def ElementAttributesUpdater_def)

lemma update_wf:
  assumes "wf_updater u" and "well_typed M"
  shows "wf_updater (state_of (update M u))"
proof (rule update_invariant[where P = wf_updater])
  show "wf_updater u" by fact
next
  fix k and s :: "jsval \<times> updater"
  assume "wf_updater (snd s)"
  then show "wf_updater (snd (state_of (remove_step M k s)))"
    by (rule remove_step_wf)
next
  fix kv and s :: "jsval \<times> updater"
  assume "kv \<in> set M" and wf: "wf_updater (snd s)"
  with assms(2) have "snd kv = JNull \<or> is_string (snd kv)"
    by (auto simp: well_typed_def list_all_iff)
  with wf show "wf_updater (snd (state_of (attr_step kv s)))"
    by (rule attr_step_wf)
qed

lemma attr_step_returns_string:
  assumes "wf_updater u" and "is_string v"
  shows "\<exists>s'. attr_step (k, v) (ov, u) = Returned s'"
proof -
  have nn: "v \<noteq> JNull"
    using assms(2) by (auto simp: is_string_def)
  show ?thesis
  proof (cases "map_of (handlers u) k")
    case None
    obtain u2 where "invoke k (makeAttributeHandler (elem u) k v) JNull v
        (u\<lparr>handlers := AList.update k (makeAttributeHandler (elem u) k v) (handlers u)\<rparr>) = Returned u2"
      using invoke_made_returns[where u = "u\<lparr>handlers := AList.update k (makeAttributeHandler (elem u) k v) (handlers u)\<rparr>"
          and ?e0.0 = "elem u" and v = v and ov = JNull and k = k and w = v] assms(2)
      by auto
    with None nn show ?thesis
      by (simp add: attr_step_cases)
  next
    case (Some h)
    with assms(1) have h: "is_string (h_value h)" "h = makeAttributeHandler (elem u) k (h_value h)"
      by (auto simp: wf_updater_iff)
    obtain u2 where "invoke k h (h_value h) v u = Returned u2"
      using invoke_made_returns[where u = u and ?e0.0 = "elem u" and v = v and ov = "h_value h"
          and k = k and w = "h_value h"] assms(2) h
      by auto
    with Some nn show ?thesis
      by (simp add: attr_step_cases)
  qed
qed

lemma attr_loop_returns_strings:
  assumes "wf_updater (snd s)" and "\<forall>kv \<in> set M. is_string (snd kv)"
  shows "\<exists>s'. for_in attr_step M s = Returned s'"
  using assms
proof (induction M arbitrary: s)
  case Nil
  then show ?case by simp
next
  case (Cons kv M)
  obtain k v where kv: "kv = (k, v)" by (cases kv)
  obtain ov u where s: "s = (ov, u)" by (cases s)
  have v: "is_string v"
    using Cons.prems(2) by (simp add: kv)
  obtain s1 where s1: "attr_step (k, v) (ov, u) = Returned s1"
    using attr_step_returns_string[of u v k ov] Cons.prems(1) v by (auto simp: s)
  have "wf_updater (snd s1)"
    using attr_step_wf[of s kv] Cons.prems(1) v s1 by (simp add: kv s)
  then obtain s' where "for_in attr_step M s1 = Returned s'"
    using Cons.IH[of s1] Cons.prems(2) by auto
  with s1 show ?case
    by (simp add: kv s)
qed

lemma remove_step_returns:
  assumes "wf_updater u" and "k \<in> fst ` set (handlers u)"
  shows "\<exists>s'. remove_step M k (ov, u) = Returned s'"
proof -
  from assms(2) obtain h where t: "map_of (handlers u) k = Some h"
    by (metis map_of_eq_None_iff not_Some_eq)
  with assms(1) have h: "is_string (h_value h)" "h = makeAttributeHandler (elem u) k (h_value h)"
    by (auto simp: wf_updater_iff)
  obtain u2 where "invoke k h (h_value h) JNull u = Returned u2"
    using invoke_made_returns[where u = u and ?e0.0 = "elem u" and v = JNull
        and ov = "h_value h" and k = k and w = "h_value h"] h
    by auto
  with t show ?thesis
    by (simp add: remove_step_cases)
qed

lemma remove_loop_returns:
  assumes "wf_updater (snd s)" and "distinct ks" and "set ks \<subseteq> fst ` set (handlers (snd s))"
  shows "\<exists>s'. for_in (remove_step M) ks s = Returned s'"
  using assms
proof (induction ks arbitrary: s)
  case Nil
  then show ?case by simp
next
  case (Cons k ks)
  obtain ov u where s: "s = (ov, u)" by (cases s)
  obtain s1 where s1: "remove_step M k (ov, u) = Returned s1"
    using remove_step_returns[of u k M ov] Cons.prems(1,3) by (auto simp: s)
  have wf1: "wf_updater (snd s1)"
    using remove_step_wf[of s M k] Cons.prems(1) s1 by (simp add: s)
  have "k' \<in> fst ` set (handlers (snd s1))" if "k' \<in> set ks" for k'
  proof -
    from that Cons.prems(2) have "k' \<noteq> k" by auto
    then have "map_of (handlers (snd s1)) k' = map_of (handlers u) k'"
      using remove_step_map_of_other[of k' k M ov u] s1 by simp
    moreover from that Cons.prems(3) have "k' \<in> fst ` set (handlers u)"
      by (auto simp: s)
    ultimately show ?thesis
      by (metis map_of_eq_None_iff)
  qed
  then have "set ks \<subseteq> fst ` set (handlers (snd s1))"
    by blast
  with wf1 Cons.prems(2) obtain s' where "for_in (remove_step M) ks s1 = Returned s'"
    using Cons.IH[of s1] by auto
  with s1 show ?case
    by (simp add: s)
qed

text \<open>
  With string values only, \<^verbatim>\<open>update\<close> returns on every well-formed updater, and the
  same call again returns without any effect.
\<close>

lemma update_returns_on_strings:
  assumes "wf_updater u" and "well_typed M" and "JNull \<notin> snd ` set M"
  shows "\<exists>u'. update M u = Returned u'"
proof -
  have wf: "wf_updater (snd (JUndefined, u))"
    using assms(1) by simp
  have d: "distinct (map fst (handlers u))"
    using assms(1) by (simp add: wf_updater_def)
  obtain s1 where s1: "for_in (remove_step M) (map fst (handlers u)) (JUndefined, u) = Returned s1"
    using remove_loop_returns[OF wf d, of M] by auto
  have "wf_updater (snd (state_of (for_in (remove_step M) (map fst (handlers u)) (JUndefined, u))))"
    by (rule for_in_invariant[where P = "\<lambda>s. wf_updater (snd s)"])
       (simp_all add: assms(1) remove_step_wf)
  then have wf1: "wf_updater (snd s1)"
    by (simp add: s1)
  have "\<forall>kv \<in> set M. is_string (snd kv)"
    using assms(2,3) by (force simp: well_typed_def list_all_iff)
  from attr_loop_returns_strings[OF wf1 this]
  obtain s2 where "for_in attr_step M s1 = Returned s2"
    by auto
  with s1 show ?thesis
    by (simp add: update_def)
qed

lemma update_idempotent_on_strings:
  assumes "wf_updater u" and "well_typed M" and "JNull \<notin> snd ` set M"
  shows "\<exists>u'. update M u = Returned u' \<and> update M u' = Returned u'"
proof -
  obtain u' where r: "update M u = Returned u'"
    using update_returns_on_strings[OF assms] by auto
  have "distinct (map fst M)"
    using assms(2) by (simp add: well_typed_def)
  then have "update M u' = Returned u'"
    using update_second_call[OF _ wf_table_ok[OF assms(1)] r] assms(3) by simp
  with r show ?thesis by simp
qed

section \<open>Removing every handler\<close>

lemma remove_step_head:
  assumes "handlers u = (k, h) # rest"
    and "k \<notin> fst ` set rest"
    and "removal h (elem u) = Returned e1"
  shows "remove_step [] k (ov, u) =
    Returned (h_value h,
      \<lparr>elem = e1, handlers = rest, invoked = invoked u @ [(k, h_value h, JNull)]\<rparr>)"
  using assms by (simp add: remove_step_cases invoke_def Let_def removal_def)

lemma remove_loop_all:
  assumes "distinct (map fst hs)"
    and "handlers u = hs"
    and "\<forall>kh \<in> set hs. \<exists>s. snd kh = makeAttributeHandler e0 (fst kh) (JStr s)"
    and "untouched_by_focus e0 (elem u)"
    and "''class'' \<in> fst ` set hs \<longrightarrow> attributes (elem u) ''class'' = attributes e0 ''class''"
  shows "\<exists>ov' u'. for_in (remove_step []) (map fst hs) (ov, u) = Returned (ov', u')
      \<and> handlers u' = []
      \<and> invoked u' = invoked u @ map (\<lambda>kh. (fst kh, h_value (snd kh), JNull)) hs
      \<and> untouched_by_focus e0 (elem u')
      \<and> (\<forall>kh \<in> set hs. removed_value e0 (elem u') (fst kh) (h_value (snd kh)))
      \<and> (\<forall>k v. removed_value e0 (elem u) k v \<and> k \<notin> fst ` set hs \<longrightarrow>
            removed_value e0 (elem u') k v)"
  using assms
proof (induction hs arbitrary: u ov)
  case Nil
  then show ?case by simp
next
  case (Cons kh rest)
  obtain k h where kh: "kh = (k, h)" by (cases kh)
  from Cons.prems(3) obtain s where h: "h = makeAttributeHandler e0 k (JStr s)"
    by (auto simp: kh)
  have kd: "node_kind (elem u) = node_kind e0"
    using Cons.prems(4) by (simp add: untouched_by_focus_def)
  obtain e1 where e1: "removal h (elem u) = Returned e1"
    using removal_returns[OF h kd] by blast
  let ?u1 = "\<lparr>elem = e1, handlers = rest, invoked = invoked u @ [(k, h_value h, JNull)]\<rparr>"
  have k: "k \<notin> fst ` set rest" and d: "distinct (map fst rest)"
    using Cons.prems(1) by (auto simp: kh)
  have step: "remove_step [] k (ov, u) = Returned (h_value h, ?u1)"
    using Cons.prems(2) k e1 by (intro remove_step_head) (simp_all add: kh)
  have e1': "e1 = state_of (removal h (elem u))"
    using e1 by simp
  have u1: "untouched_by_focus e0 e1"
    unfolding e1' removal_def by (rule handler_update_untouched[OF Cons.prems(4)])
  have fr0: "k = ''class'' \<longrightarrow> attributes (elem u) ''class'' = attributes e0 ''class''"
    using Cons.prems(5) by (auto simp add: kh)
  have est: "removed_value e0 e1 k (h_value h)"
    unfolding e1' using removal_establishes[OF Cons.prems(4) fr0, of s] by (simp add: h)
  have pres: "removed_value e0 e1 k' v" if "removed_value e0 (elem u) k' v" "k' \<noteq> k" for k' v
    unfolding e1' h using that by (intro removal_preserves[OF _ Cons.prems(4)]) simp_all
  have fr1: "''class'' \<in> fst ` set rest \<longrightarrow> attributes (elem ?u1) ''class'' = attributes e0 ''class''"
  proof
    assume c: "''class'' \<in> fst ` set rest"
    with k have "k \<noteq> ''class''" by auto
    then have "attributes e1 ''class'' = attributes (elem u) ''class''"
      unfolding e1' h by (rule removal_class_frame)
    with c Cons.prems(5) show "attributes (elem ?u1) ''class'' = attributes e0 ''class''"
      by (simp add: kh)
  qed
  from Cons.prems(3) have made: "\<forall>kh \<in> set rest. \<exists>s. snd kh = makeAttributeHandler e0 (fst kh) (JStr s)"
    by simp
  have u1': "untouched_by_focus e0 (elem ?u1)"
    using u1 by simp
  obtain ov' u' where r: "for_in (remove_step []) (map fst rest) (h_value h, ?u1) = Returned (ov', u')"
      and r1: "handlers u' = []"
      and r2: "invoked u' = invoked ?u1 @ map (\<lambda>kh. (fst kh, h_value (snd kh), JNull)) rest"
      and r3: "untouched_by_focus e0 (elem u')"
      and r4: "\<forall>kh \<in> set rest. removed_value e0 (elem u') (fst kh) (h_value (snd kh))"
      and r5: "\<forall>k v. removed_value e0 (elem ?u1) k v \<and> k \<notin> fst ` set rest \<longrightarrow>
            removed_value e0 (elem u') k v"
    using Cons.IH[OF d _ made u1' fr1, of "h_value h"] by auto
  have "for_in (remove_step []) (map fst (kh # rest)) (ov, u) = Returned (ov', u')"
    using step r by (simp add: kh)
  moreover have "invoked u' = invoked u @ map (\<lambda>kh. (fst kh, h_value (snd kh), JNull)) (kh # rest)"
    using r2 by (simp add: kh)
  moreover have "\<forall>kh' \<in> set (kh # rest). removed_value e0 (elem u') (fst kh') (h_value (snd kh'))"
    using r4 r5 est k by (auto simp: kh)
  moreover have "\<forall>k' v. removed_value e0 (elem u) k' v \<and> k' \<notin> fst ` set (kh # rest) \<longrightarrow>
            removed_value e0 (elem u') k' v"
    using r5 pres by (auto simp: kh)
  ultimately show ?case
    using r1 r3 by blast
qed

lemma untouched_refl: "untouched_by_focus e e"
  by (simp add: untouched_by_focus_def)

lemma update_empty_removes:
  assumes "wf_updater u"
  shows "\<exists>u2. update [] u = Returned u2
      \<and> handlers u2 = []
      \<and> invoked u2 = invoked u @ map (\<lambda>kh. (fst kh, h_value (snd kh), JNull)) (handlers u)
      \<and> (\<forall>kh \<in> set (handlers u). removed_value (elem u) (elem u2) (fst kh) (h_value (snd kh)))"
proof -
  have d1: "distinct (map fst (handlers u))"
    using assms by (simp add: wf_updater_def)
  have made: "\<forall>kh \<in> set (handlers u). \<exists>s. snd kh = makeAttributeHandler (elem u) (fst kh) (JStr s)"
  proof
    fix kh assume "kh \<in> set (handlers u)"
    with assms have "is_string (h_value (snd kh))"
        and "snd kh = makeAttributeHandler (elem u) (fst kh) (h_value (snd kh))"
      by (auto simp: wf_updater_def list_all_iff)
    then show "\<exists>s. snd kh = makeAttributeHandler (elem u) (fst kh) (JStr s)"
      by (cases "h_value (snd kh)") (auto simp: is_string_def)
  qed
  obtain ov' u2 where r: "for_in (remove_step []) (map fst (handlers u)) (JUndefined, u) = Returned (ov', u2)"
      and r1: "handlers u2 = []"
      and r2: "invoked u2 = invoked u @ map (\<lambda>kh. (fst kh, h_value (snd kh), JNull)) (handlers u)"
      and r4: "\<forall>kh \<in> set (handlers u). removed_value (elem u) (elem u2) (fst kh) (h_value (snd kh))"
    using remove_loop_all[OF d1 refl made untouched_refl, of JUndefined] by blast
  have "update [] u = Returned u2"
    using r by (simp add: update_def)
  with r1 r2 r4 show ?thesis
    by blast
qed

lemma wf_updater_elem:
  assumes "wf_updater u" and "tagName e = tagName (elem u)"
    and "ownerSVGElement e = ownerSVGElement (elem u)"
  shows "wf_updater (u\<lparr>elem := e\<rparr>)"
  using assms(1) makeAttributeHandler_tag[OF assms(2,3)]
  by (simp add: wf_updater_def)


lemma class_update_same:
  "tokens s =
     filter (\<lambda>c. \<not> (c \<in> set (tokens v) \<and> c \<notin> set (tokens v))) (tokens s) @
     rev (remdups (rev (filter (\<lambda>c. c \<notin> set (tokens v) \<and> c \<notin> set (tokens s)) (tokens v))))"
  by simp

lemma update_class_tokens:
  "\<exists>u'. update [(''class'', JStr v)]
           \<lparr>elem = e, handlers = [(''class'', makeAttributeHandler e ''class'' (JStr ov))],
            invoked = []\<rparr> = Returned u'
     \<and> tokens (className (elem u')) =
         filter (\<lambda>c. \<not> (c \<in> set (tokens ov) \<and> c \<notin> set (tokens v))) (tokens (className e)) @
         rev (remdups (rev (filter (\<lambda>c. c \<notin> set (tokens ov) \<and> c \<notin> set (tokens (className e)))
                              (tokens v))))"
proof (cases "ov = v")
  case True
  then show ?thesis
    using class_update_same[of "className e" v]
    by (simp add: update_def remove_step_cases attr_step_cases del: remdups.simps rev.simps)
next
  case False
  obtain e' where e': "handler_update (makeAttributeHandler e ''class'' (JStr v)) e (JStr ov) (JStr v) = Returned e'"
      and t: "tokens (className e') =
         filter (\<lambda>c. \<not> (c \<in> set (tokens ov) \<and> c \<notin> set (tokens v))) (tokens (className e)) @
         rev (remdups (rev (filter (\<lambda>c. c \<notin> set (tokens ov) \<and> c \<notin> set (tokens (className e)))
                              (tokens v))))"
    using class_handler_tokens[of e v ov] by blast
  from False e' t show ?thesis
    by (simp add: update_def remove_step_cases attr_step_cases invoke_def Let_def
        del: remdups.simps rev.simps)
qed

section \<open>The token-set strategy\<close>

text \<open>
  C1. The reconciler remembers \<^verbatim>\<open>"a"\<close> for \<^verbatim>\<open>class\<close>, the element carries
  \<^verbatim>\<open>"a b"\<close> (\<^verbatim>\<open>b\<close> was added from outside), and \<^verbatim>\<open>update({class: "a c"})\<close> is
  called, on any element, SVG or not: the call returns and the class is \<^verbatim>\<open>"a b c"\<close>.
  In general, for all token lists: the first loop removes from the live tokens exactly
  those of the old value that the new value lacks, before anything is added. The second
  loop returns the list it is given followed by the tokens of the new value that are
  neither in the old value nor in that list, each at its first occurrence only; so the
  number of occurrences of a token grows, by one, exactly when the token is in the new
  value, not in the old value and not in the list, and a token that is live already is
  never added. Together, for all strings \<open>ov\<close> and \<open>v\<close> and every element: when the
  reconciler remembers \<open>ov\<close>, \<^verbatim>\<open>update({class: v})\<close> returns and leaves as class tokens
  the live tokens without those that only the old value has, followed by the tokens of
  the new value that are neither in the old value nor live.
\<close>

theorem token_set_preservation:
  "(\<exists>u'. update [(''class'', JStr ''a c'')]
            \<lparr>elem = e\<lparr>attributes := (attributes e)(''class'' \<mapsto> ''a b'')\<rparr>,
             handlers = [(''class'', makeAttributeHandler e ''class'' (JStr ''a''))],
             invoked = []\<rparr> = Returned u'
         \<and> className (elem u') = ''a b c''
         \<and> tokens (className (elem u')) = [''a'', ''b'', ''c''])
   \<and> remove_old new old live = filter (\<lambda>c. \<not> (c \<in> set old \<and> c \<notin> set new)) live
   \<and> add_new old new cl =
       cl @ rev (remdups (rev (filter (\<lambda>c. c \<notin> set old \<and> c \<notin> set cl) new)))
   \<and> length (filter ((=) c) (add_new old new cl)) =
       length (filter ((=) c) cl) + (if c \<in> set new \<and> c \<notin> set old \<and> c \<notin> set cl then 1 else 0)
   \<and> (\<exists>u'. update [(''class'', JStr v)]
              \<lparr>elem = e, handlers = [(''class'', makeAttributeHandler e ''class'' (JStr ov))],
               invoked = []\<rparr> = Returned u'
         \<and> tokens (className (elem u')) =
             filter (\<lambda>c. \<not> (c \<in> set (tokens ov) \<and> c \<notin> set (tokens v))) (tokens (className e)) @
             rev (remdups (rev (filter (\<lambda>c. c \<notin> set (tokens ov) \<and> c \<notin> set (tokens (className e)))
                                  (tokens v)))))"
proof -
  have "\<exists>u'. update [(''class'', JStr ''a c'')]
            \<lparr>elem = e\<lparr>attributes := (attributes e)(''class'' \<mapsto> ''a b'')\<rparr>,
             handlers = [(''class'', makeAttributeHandler e ''class'' (JStr ''a''))],
             invoked = []\<rparr> = Returned u'
         \<and> className (elem u') = ''a b c''
         \<and> tokens (className (elem u')) = [''a'', ''b'', ''c'']"
    by (simp add: update_defs handler_defs dom_defs tokens_def)
  moreover note remove_old_filter[of new old live] add_new_exact[of old new cl]
    add_new_count[of c old new cl] update_class_tokens[of v e ov]
  ultimately show ?thesis
    by (intro conjI)
qed

text \<open>
  C2. The reconciler remembers \<^verbatim>\<open>"a b"\<close> for \<^verbatim>\<open>class\<close> and
  \<^verbatim>\<open>update({class: "b"})\<close> is called, whatever string \<open>cur\<close> the element carries as its
  class at that moment: the call returns, and the tokens of the class are those of
  \<open>cur\<close> without \<^verbatim>\<open>a\<close>, in their order. So \<^verbatim>\<open>b\<close> and every token added from outside
  stay.
\<close>

theorem token_set_removal:
  "\<exists>u'. update [(''class'', JStr ''b'')]
           \<lparr>elem = e\<lparr>attributes := (attributes e)(''class'' \<mapsto> cur)\<rparr>,
            handlers = [(''class'', makeAttributeHandler e ''class'' (JStr ''a b''))],
            invoked = []\<rparr> = Returned u'
     \<and> className (elem u') = js_join '' '' (filter (\<lambda>t. t \<noteq> ''a'') (tokens cur))
     \<and> tokens (className (elem u')) = filter (\<lambda>t. t \<noteq> ''a'') (tokens cur)
     \<and> set (tokens (className (elem u'))) = set (tokens cur) - {''a''}"
  by (auto simp add: update_defs handler_defs dom_defs arrayWithout_filter tokens_join_filter
      simp flip: tokens_def)

section \<open>Missing accessors\<close>

text \<open>
  C8. \<^verbatim>\<open>BaseClassHandler.update\<close> run on a handler whose class defines no
  \<^verbatim>\<open>getCurrentValue\<close> or no \<^verbatim>\<open>setValue\<close> throws the missing-methods error at once and
  leaves the element as it was; a handler of the class \<^verbatim>\<open>BaseClassHandler\<close> itself does
  so on every call of its \<^verbatim>\<open>update\<close>, and \<^verbatim>\<open>ElementAttributesUpdater.update\<close> lets the
  error through. A \<^verbatim>\<open>ClassHandler\<close> or \<^verbatim>\<open>SVGClassHandler\<close> never throws that error.
\<close>

theorem missing_methods_fail_fast:
  "(getCurrentValue (h_class this) = None \<or> setValue (h_class this) = None \<longrightarrow>
      BaseClassHandler_update this e oldValue v = Threw MissingMethods e)
   \<and> (h_class this = BaseClassHandler \<longrightarrow>
      handler_update this e oldValue v = Threw MissingMethods e
      \<and> (h_value this \<noteq> v \<longrightarrow>
          update [(k, v)] \<lparr>elem = e, handlers = [(k, this)], invoked = []\<rparr> =
            Threw MissingMethods
              \<lparr>elem = e, handlers = [(k, this\<lparr>h_value := v\<rparr>)],
               invoked = [(k, h_value this, v)]\<rparr>))
   \<and> (h_class this = ClassHandler \<or> h_class this = SVGClassHandler \<longrightarrow>
      (\<forall>e'. handler_update this e oldValue v \<noteq> Threw MissingMethods e'))"
  by (auto simp: handler_defs update_defs split: option.splits)

theorem missing_methods_fail_fast_witness:
  "BaseClassHandler_update \<lparr>h_class = BaseClassHandler, h_name = ''class'', h_value = JStr ''a''\<rparr>
     (plain_element ''DIV'') (JStr ''a'') (JStr ''b'') = Threw MissingMethods (plain_element ''DIV'')
   \<and> update [(''class'', JStr ''b'')]
       \<lparr>elem = plain_element ''DIV'',
        handlers = [(''class'', \<lparr>h_class = BaseClassHandler, h_name = ''class'', h_value = JStr ''a''\<rparr>)],
        invoked = []\<rparr> =
      Threw MissingMethods
       \<lparr>elem = plain_element ''DIV'',
        handlers = [(''class'', \<lparr>h_class = BaseClassHandler, h_name = ''class'', h_value = JStr ''b''\<rparr>)],
        invoked = [(''class'', JStr ''a'', JStr ''b'')]\<rparr>
   \<and> handler_update \<lparr>h_class = ClassHandler, h_name = ''class'', h_value = JStr ''a''\<rparr>
       (plain_element ''DIV'') (JStr ''a'') (JStr ''b'') \<noteq> Threw MissingMethods (plain_element ''DIV'')"
  using
    missing_methods_fail_fast[of "\<lparr>h_class = BaseClassHandler, h_name = ''class'', h_value = JStr ''a''\<rparr>"
      "plain_element ''DIV''" "JStr ''a''" "JStr ''b''" "''class''"]
    missing_methods_fail_fast[of "\<lparr>h_class = ClassHandler, h_name = ''class'', h_value = JStr ''a''\<rparr>"
      "plain_element ''DIV''" "JStr ''a''" "JStr ''b''" "''class''"]
  by (simp add: getCurrentValue_def)

section \<open>Updating twice\<close>

text \<open>
  C3. On a fresh updater of a plain element, \<^verbatim>\<open>update({x: "1", d: null})\<close> returns, having
  set \<^verbatim>\<open>x\<close>. The same call again makes no mutation, but it does not return: in the round
  of \<^verbatim>\<open>d\<close> the variable \<^verbatim>\<open>oldValue\<close> still holds \<^verbatim>\<open>"1"\<close> from the round of \<^verbatim>\<open>x\<close>,
  so the test \<^verbatim>\<open>oldValue !== value\<close> passes with no handler, and
  \<^verbatim>\<open>handler.value = value\<close> throws a TypeError.
\<close>

theorem update_twice_throws:
  "update [(''x'', JStr ''1''), (''d'', JNull)] (ElementAttributesUpdater (plain_element ''DIV'')) =
     Returned
      \<lparr>elem = (plain_element ''DIV'')
         \<lparr>attributes := [''x'' \<mapsto> ''1''], calls := [SetAttribute ''x'' (JStr ''1'')]\<rparr>,
       handlers = [(''x'', \<lparr>h_class = AttributeHandler, h_name = ''x'', h_value = JStr ''1''\<rparr>)],
       invoked = [(''x'', JNull, JStr ''1'')]\<rparr>
   \<and> update [(''x'', JStr ''1''), (''d'', JNull)]
      \<lparr>elem = (plain_element ''DIV'')
         \<lparr>attributes := [''x'' \<mapsto> ''1''], calls := [SetAttribute ''x'' (JStr ''1'')]\<rparr>,
       handlers = [(''x'', \<lparr>h_class = AttributeHandler, h_name = ''x'', h_value = JStr ''1''\<rparr>)],
       invoked = [(''x'', JNull, JStr ''1'')]\<rparr> =
     Threw TypeError
      \<lparr>elem = (plain_element ''DIV'')
         \<lparr>attributes := [''x'' \<mapsto> ''1''], calls := [SetAttribute ''x'' (JStr ''1'')]\<rparr>,
       handlers = [(''x'', \<lparr>h_class = AttributeHandler, h_name = ''x'', h_value = JStr ''1''\<rparr>)],
       invoked = [(''x'', JNull, JStr ''1'')]\<rparr>"
  by (simp add: update_defs handler_defs dom_defs plain_element_def)

section \<open>Focus\<close>

text \<open>
  The focused \<^verbatim>\<open>INPUT\<close> of the scenario: \<^verbatim>\<open>update({value: "x"})\<close> returns and leaves the
  value property alone, but records \<^verbatim>\<open>"x"\<close> in the handler. After the control has lost
  focus, the same call finds the recorded value equal to the new one and skips the handler,
  so the value property is still not \<^verbatim>\<open>"x"\<close>.
\<close>

theorem focus_suppression_counterexample:
  "update [(''value'', JStr ''x'')]
      (ElementAttributesUpdater ((plain_element ''INPUT'')\<lparr>isActiveElement := True\<rparr>)) =
     Returned
      \<lparr>elem = (plain_element ''INPUT'')\<lparr>isActiveElement := True\<rparr>,
       handlers = [(''value'', \<lparr>h_class = ValueHandler, h_name = ''value'', h_value = JStr ''x''\<rparr>)],
       invoked = [(''value'', JNull, JStr ''x'')]\<rparr>
   \<and> update [(''value'', JStr ''x'')]
      \<lparr>elem = (plain_element ''INPUT'')\<lparr>isActiveElement := False\<rparr>,
       handlers = [(''value'', \<lparr>h_class = ValueHandler, h_name = ''value'', h_value = JStr ''x''\<rparr>)],
       invoked = [(''value'', JNull, JStr ''x'')]\<rparr> =
     Returned
      \<lparr>elem = (plain_element ''INPUT'')\<lparr>isActiveElement := False\<rparr>,
       handlers = [(''value'', \<lparr>h_class = ValueHandler, h_name = ''value'', h_value = JStr ''x''\<rparr>)],
       invoked = [(''value'', JNull, JStr ''x'')]\<rparr>
   \<and> valueProp ((plain_element ''INPUT'')\<lparr>isActiveElement := False\<rparr>) \<noteq> JStr ''x''"
  by (simp add: update_defs handler_defs dom_defs plain_element_def)

text \<open>
  C5, as the code has it. For a focused \<^verbatim>\<open>INPUT\<close> or \<^verbatim>\<open>TEXTAREA\<close> with no handler yet,
  \<^verbatim>\<open>update({value: x})\<close> returns without touching the element and records \<open>x\<close>. Once the
  control is no longer focused, the next \<^verbatim>\<open>update({value: x})\<close> returns without touching
  the element either; an update to a different string \<open>y\<close> then sets the value property
  to \<open>y\<close>.
\<close>

theorem focus_suppression:
  assumes "tagName e = ''INPUT'' \<or> tagName e = ''TEXTAREA''"
    and "isActiveElement e"
    and "y \<noteq> x"
  shows "update [(''value'', JStr x)] (ElementAttributesUpdater e) =
      Returned
       \<lparr>elem = e,
        handlers = [(''value'', \<lparr>h_class = ValueHandler, h_name = ''value'', h_value = JStr x\<rparr>)],
        invoked = [(''value'', JNull, JStr x)]\<rparr>
    \<and> update [(''value'', JStr x)]
       \<lparr>elem = e\<lparr>isActiveElement := False\<rparr>,
        handlers = [(''value'', \<lparr>h_class = ValueHandler, h_name = ''value'', h_value = JStr x\<rparr>)],
        invoked = [(''value'', JNull, JStr x)]\<rparr> =
      Returned
       \<lparr>elem = e\<lparr>isActiveElement := False\<rparr>,
        handlers = [(''value'', \<lparr>h_class = ValueHandler, h_name = ''value'', h_value = JStr x\<rparr>)],
        invoked = [(''value'', JNull, JStr x)]\<rparr>
    \<and> (\<exists>u'. update [(''value'', JStr y)]
         \<lparr>elem = e\<lparr>isActiveElement := False\<rparr>,
          handlers = [(''value'', \<lparr>h_class = ValueHandler, h_name = ''value'', h_value = JStr x\<rparr>)],
          invoked = [(''value'', JNull, JStr x)]\<rparr> = Returned u'
        \<and> valueProp (elem u') = JStr y)"
  using assms by (auto simp add: update_defs handler_defs dom_defs)

theorem focus_suppression_witness:
  "tagName ((plain_element ''TEXTAREA'')\<lparr>isActiveElement := True\<rparr>) = ''TEXTAREA''
   \<and> isActiveElement ((plain_element ''TEXTAREA'')\<lparr>isActiveElement := True\<rparr>)
   \<and> update [(''value'', JStr ''x'')]
       (ElementAttributesUpdater ((plain_element ''TEXTAREA'')\<lparr>isActiveElement := True\<rparr>)) =
      Returned
       \<lparr>elem = (plain_element ''TEXTAREA'')\<lparr>isActiveElement := True\<rparr>,
        handlers = [(''value'', \<lparr>h_class = ValueHandler, h_name = ''value'', h_value = JStr ''x''\<rparr>)],
        invoked = [(''value'', JNull, JStr ''x'')]\<rparr>
   \<and> update [(''value'', JStr ''x'')]
       \<lparr>elem = (plain_element ''TEXTAREA'')\<lparr>isActiveElement := False\<rparr>,
        handlers = [(''value'', \<lparr>h_class = ValueHandler, h_name = ''value'', h_value = JStr ''x''\<rparr>)],
        invoked = [(''value'', JNull, JStr ''x'')]\<rparr> =
      Returned
       \<lparr>elem = (plain_element ''TEXTAREA'')\<lparr>isActiveElement := False\<rparr>,
        handlers = [(''value'', \<lparr>h_class = ValueHandler, h_name = ''value'', h_value = JStr ''x''\<rparr>)],
        invoked = [(''value'', JNull, JStr ''x'')]\<rparr>
   \<and> (\<exists>u'. update [(''value'', JStr ''y'')]
         \<lparr>elem = (plain_element ''TEXTAREA'')\<lparr>isActiveElement := False\<rparr>,
          handlers = [(''value'', \<lparr>h_class = ValueHandler, h_name = ''value'', h_value = JStr ''x''\<rparr>)],
          invoked = [(''value'', JNull, JStr ''x'')]\<rparr> = Returned u'
        \<and> valueProp (elem u') = JStr ''y'')"
  using focus_suppression[of "(plain_element ''TEXTAREA'')\<lparr>isActiveElement := True\<rparr>" "''y''" "''x''"]
  by (simp add: plain_element_def)

section \<open>Values that are not strings\<close>




section \<open>Null for a name without handler\<close>

text \<open>
  C4. On a new updater of an element with no attribute (any tag),
  \<^verbatim>\<open>update({id: "a", class: "foo", disabled: null})\<close> returns: \<^verbatim>\<open>id\<close> is \<^verbatim>\<open>"a"\<close>, the
  class is \<^verbatim>\<open>"foo"\<close>, there is no \<^verbatim>\<open>disabled\<close> attribute, the element received exactly
  the two calls for \<^verbatim>\<open>id\<close> and \<^verbatim>\<open>class\<close>, and two handlers were called. In general, in
  a call of \<^verbatim>\<open>update\<close> whose map gives \<^verbatim>\<open>null\<close> to a name \<open>k\<close> that has no handler, no
  handler is called for \<open>k\<close>, whether the call returns or throws: the round of \<open>k\<close> leaves
  the state as it is, returning when the stale \<open>oldValue\<close> is \<^verbatim>\<open>null\<close> and throwing a
  TypeError otherwise.
\<close>

theorem null_for_untracked_name:
  "update [(''id'', JStr ''a''), (''class'', JStr ''foo''), (''disabled'', JNull)]
      (ElementAttributesUpdater (plain_element t)) =
    Returned
     \<lparr>elem = (plain_element t)
        \<lparr>attributes := [''id'' \<mapsto> ''a'', ''class'' \<mapsto> ''foo''],
         calls := [SetAttribute ''id'' (JStr ''a''), SetClassName ''foo'']\<rparr>,
      handlers = [(''id'', \<lparr>h_class = AttributeHandler, h_name = ''id'', h_value = JStr ''a''\<rparr>),
                  (''class'', \<lparr>h_class = ClassHandler, h_name = ''class'', h_value = JStr ''foo''\<rparr>)],
      invoked = [(''id'', JNull, JStr ''a''), (''class'', JNull, JStr ''foo'')]\<rparr>
   \<and> (distinct (map fst M) \<and> map_of (handlers u) k = None \<and> map_of M k = Some JNull \<longrightarrow>
        filter (\<lambda>i. fst i = k) (invoked (state_of (update M u))) =
        filter (\<lambda>i. fst i = k) (invoked u))
   \<and> (map_of (handlers u) k = None \<longrightarrow>
        attr_step (k, JNull) (ov, u) =
          (if ov \<noteq> JNull then Threw TypeError (ov, u) else Returned (ov, u)))"
proof -
  have "update [(''id'', JStr ''a''), (''class'', JStr ''foo''), (''disabled'', JNull)]
      (ElementAttributesUpdater (plain_element t)) =
    Returned
     \<lparr>elem = (plain_element t)
        \<lparr>attributes := [''id'' \<mapsto> ''a'', ''class'' \<mapsto> ''foo''],
         calls := [SetAttribute ''id'' (JStr ''a''), SetClassName ''foo'']\<rparr>,
      handlers = [(''id'', \<lparr>h_class = AttributeHandler, h_name = ''id'', h_value = JStr ''a''\<rparr>),
                  (''class'', \<lparr>h_class = ClassHandler, h_name = ''class'', h_value = JStr ''foo''\<rparr>)],
      invoked = [(''id'', JNull, JStr ''a''), (''class'', JNull, JStr ''foo'')]\<rparr>"
    by (simp add: update_defs handler_defs dom_defs plain_element_def)
  moreover have "map_of (handlers u) k = None \<longrightarrow>
        attr_step (k, JNull) (ov, u) =
          (if ov \<noteq> JNull then Threw TypeError (ov, u) else Returned (ov, u))"
    by (simp add: attr_step_cases)
  ultimately show ?thesis
    using update_null_key[of M u k] by blast
qed

theorem null_for_untracked_name_witness:
  "filter (\<lambda>i. fst i = ''disabled'')
     (invoked (state_of (update [(''disabled'', JNull), (''id'', JStr ''a'')]
        (ElementAttributesUpdater (plain_element ''DIV''))))) = []
   \<and> attr_step (''disabled'', JNull) (JUndefined, ElementAttributesUpdater (plain_element ''DIV'')) =
       Threw TypeError (JUndefined, ElementAttributesUpdater (plain_element ''DIV''))
   \<and> attr_step (''disabled'', JNull) (JNull, ElementAttributesUpdater (plain_element ''DIV'')) =
       Returned (JNull, ElementAttributesUpdater (plain_element ''DIV''))"
  using null_for_untracked_name[of "''DIV''" "[(''disabled'', JNull), (''id'', JStr ''a'')]"
      "ElementAttributesUpdater (plain_element ''DIV'')" "''disabled''" JUndefined]
    null_for_untracked_name[of "''DIV''" "[(''disabled'', JNull), (''id'', JStr ''a'')]"
      "ElementAttributesUpdater (plain_element ''DIV'')" "''disabled''" JNull]
  by (simp add: ElementAttributesUpdater_def)

section \<open>The order of the calls\<close>

text \<open>
  The updater tracks \<^verbatim>\<open>b\<close> and is given \<^verbatim>\<open>{a: "1", b: null}\<close>: \<^verbatim>\<open>b\<close> is a key of the
  map, so the first loop leaves it alone, and the second loop sets \<^verbatim>\<open>a\<close> before it
  removes \<^verbatim>\<open>b\<close>.
\<close>

theorem mutation_order_counterexample:
  "update [(''a'', JStr ''1''), (''b'', JNull)]
      \<lparr>elem = (plain_element ''DIV'')\<lparr>attributes := [''b'' \<mapsto> ''2'']\<rparr>,
       handlers = [(''b'', \<lparr>h_class = AttributeHandler, h_name = ''b'', h_value = JStr ''2''\<rparr>)],
       invoked = []\<rparr> =
     Returned
      \<lparr>elem = (plain_element ''DIV'')
         \<lparr>attributes := [''a'' \<mapsto> ''1''],
          calls := [SetAttribute ''a'' (JStr ''1''), RemoveAttribute ''b'']\<rparr>,
       handlers = [(''a'', \<lparr>h_class = AttributeHandler, h_name = ''a'', h_value = JStr ''1''\<rparr>)],
       invoked = [(''a'', JNull, JStr ''1''), (''b'', JStr ''2'', JNull)]\<rparr>"
  by (simp add: update_defs handler_defs dom_defs plain_element_def)

text \<open>
  C9, as the code has it. The handler calls of one \<^verbatim>\<open>update\<close> (whether it returns or
  throws) are first removals, with new value \<^verbatim>\<open>null\<close>, for tracked names that are not
  keys of the map, and then calls for keys of the map, in the order of the map: a key with
  value \<^verbatim>\<open>null\<close> is removed in its turn there, among the additions. Each handler call
  makes at most one mutation call on the element.
\<close>

theorem mutation_order:
  "(\<exists>pre post. invoked (state_of (update M u)) = invoked u @ pre @ post
     \<and> (\<forall>i \<in> set pre. fst i \<in> fst ` set (handlers u) \<and> fst i \<notin> fst ` set M \<and> snd (snd i) = JNull)
     \<and> subseq (map (\<lambda>i. (fst i, snd (snd i))) post) M)
   \<and> (\<exists>c. calls (state_of (handler_update h e ov v)) = calls e @ c \<and> length c \<le> 1)"
  using update_invoked[of M u] handler_update_calls[of h e ov v] by blast

theorem mutation_order_witness:
  "(\<exists>pre post.
      invoked (state_of (update [(''a'', JStr ''1''), (''b'', JNull)]
        \<lparr>elem = plain_element ''DIV'',
         handlers = [(''b'', \<lparr>h_class = AttributeHandler, h_name = ''b'', h_value = JStr ''2''\<rparr>),
                     (''c'', \<lparr>h_class = AttributeHandler, h_name = ''c'', h_value = JStr ''3''\<rparr>)],
         invoked = []\<rparr>)) = [] @ pre @ post
      \<and> list_all (\<lambda>i. fst i \<in> {''b'', ''c''} \<and> fst i \<notin> {''a'', ''b''} \<and> snd (snd i) = JNull) pre
      \<and> subseq (map (\<lambda>i. (fst i, snd (snd i))) post) [(''a'', JStr ''1''), (''b'', JNull)])
   \<and> invoked (state_of (update [(''a'', JStr ''1''), (''b'', JNull)]
        \<lparr>elem = plain_element ''DIV'',
         handlers = [(''b'', \<lparr>h_class = AttributeHandler, h_name = ''b'', h_value = JStr ''2''\<rparr>),
                     (''c'', \<lparr>h_class = AttributeHandler, h_name = ''c'', h_value = JStr ''3''\<rparr>)],
         invoked = []\<rparr>)) =
       [(''c'', JStr ''3'', JNull), (''a'', JNull, JStr ''1''), (''b'', JStr ''2'', JNull)]"
proof -
  have "invoked (state_of (update [(''a'', JStr ''1''), (''b'', JNull)]
        \<lparr>elem = plain_element ''DIV'',
         handlers = [(''b'', \<lparr>h_class = AttributeHandler, h_name = ''b'', h_value = JStr ''2''\<rparr>),
                     (''c'', \<lparr>h_class = AttributeHandler, h_name = ''c'', h_value = JStr ''3''\<rparr>)],
         invoked = []\<rparr>)) =
       [(''c'', JStr ''3'', JNull), (''a'', JNull, JStr ''1''), (''b'', JStr ''2'', JNull)]"
    by (simp add: update_defs handler_defs dom_defs plain_element_def)
  then show ?thesis
    using mutation_order[of "[(''a'', JStr ''1''), (''b'', JNull)]"
        "\<lparr>elem = plain_element ''DIV'',
         handlers = [(''b'', \<lparr>h_class = AttributeHandler, h_name = ''b'', h_value = JStr ''2''\<rparr>),
                     (''c'', \<lparr>h_class = AttributeHandler, h_name = ''c'', h_value = JStr ''3''\<rparr>)],
         invoked = []\<rparr>"
        "\<lparr>h_class = AttributeHandler, h_name = ''a'', h_value = JStr ''1''\<rparr>"
        "plain_element ''DIV''" JNull "JStr ''1''"]
    by (simp add: list_all_iff)
qed

section \<open>The invariant of the handler table\<close>

text \<open>
  C10. When \<^verbatim>\<open>update(newAttrs)\<close> returns, from a table in order, the tracked names are
  exactly the keys of \<open>newAttrs\<close> with a value other than \<^verbatim>\<open>null\<close>, each handler
  remembers the value of its key, and the table is in order again. A name tracked before
  and after keeps the class and the name of its handler (no handler is made for it); a
  name tracked only after has the handler \<^verbatim>\<open>makeAttributeHandler\<close> makes, and this
  handler was called exactly once in the update, with \<open>oldValue\<close> \<^verbatim>\<open>null\<close>.
\<close>

theorem handler_table_invariant:
  assumes "distinct (map fst M)" and "table_ok u" and "update M u = Returned u'"
  shows "fst ` set (handlers u') = {k. \<exists>v. (k, v) \<in> set M \<and> v \<noteq> JNull}
    \<and> (\<forall>kh \<in> set (handlers u'). (fst kh, h_value (snd kh)) \<in> set M)
    \<and> table_ok u'
    \<and> (\<forall>k h h'. map_of (handlers u) k = Some h \<and> map_of (handlers u') k = Some h' \<longrightarrow>
          h_class h' = h_class h \<and> h_name h' = h_name h)
    \<and> (\<forall>k h'. map_of (handlers u) k = None \<and> map_of (handlers u') k = Some h' \<longrightarrow>
          h' = makeAttributeHandler (elem u) k (h_value h')
          \<and> filter (\<lambda>i. fst i = k) (invoked u') =
              filter (\<lambda>i. fst i = k) (invoked u) @ [(k, JNull, h_value h')])"
proof -
  note m = update_map_of[OF assms(3,1,2)]
  have ok: "table_ok u'"
    using update_table_ok[OF assms(3,1,2)] .
  then have d: "distinct (map fst (handlers u'))"
    by (simp add: table_ok_def)
  have "fst ` set (handlers u') = dom (map_of (handlers u'))"
    by (simp add: dom_map_of_conv_image_fst)
  also have "\<dots> = {k. \<exists>v. map_of M k = Some v \<and> v \<noteq> JNull}"
    by (auto simp: dom_def m split: option.splits if_splits)
  also have "\<dots> = {k. \<exists>v. (k, v) \<in> set M \<and> v \<noteq> JNull}"
    using assms(1) by simp
  finally have 1: "fst ` set (handlers u') = {k. \<exists>v. (k, v) \<in> set M \<and> v \<noteq> JNull}" .
  have 2: "\<forall>kh \<in> set (handlers u'). (fst kh, h_value (snd kh)) \<in> set M"
  proof
    fix kh assume "kh \<in> set (handlers u')"
    with d have "map_of (handlers u') (fst kh) = Some (snd kh)"
      by simp
    then have "map_of M (fst kh) = Some (h_value (snd kh))"
      by (rule update_map_of_value[OF assms(3,1,2)])
    then show "(fst kh, h_value (snd kh)) \<in> set M"
      by (rule map_of_SomeD)
  qed
  have 4: "\<forall>k h h'. map_of (handlers u) k = Some h \<and> map_of (handlers u') k = Some h' \<longrightarrow>
          h_class h' = h_class h \<and> h_name h' = h_name h"
    by (auto simp: m split: option.splits if_splits)
  have 5: "\<forall>k h'. map_of (handlers u) k = None \<and> map_of (handlers u') k = Some h' \<longrightarrow>
          h' = makeAttributeHandler (elem u) k (h_value h')
          \<and> filter (\<lambda>i. fst i = k) (invoked u') =
              filter (\<lambda>i. fst i = k) (invoked u) @ [(k, JNull, h_value h')]"
  proof (intro allI impI, elim conjE)
    fix k h'
    assume un: "map_of (handlers u) k = None" and tr: "map_of (handlers u') k = Some h'"
    from tr un obtain v where v: "map_of M k = Some v" "v \<noteq> JNull"
        "h' = makeAttributeHandler (elem u) k v"
      by (auto simp: m split: option.splits if_splits)
    then have hv: "h_value h' = v" by simp
    show "h' = makeAttributeHandler (elem u) k (h_value h')
          \<and> filter (\<lambda>i. fst i = k) (invoked u') =
              filter (\<lambda>i. fst i = k) (invoked u) @ [(k, JNull, h_value h')]"
      using update_new_key_Returned[OF assms(3,1) un] v by (simp add: hv)
  qed
  from 1 2 ok 4 5 show ?thesis by blast
qed

theorem handler_table_invariant_witness:
  "distinct (map fst [(''id'', JStr ''a''), (''title'', JNull), (''class'', JStr ''x'')])
   \<and> table_ok \<lparr>elem = plain_element ''DIV'',
        handlers = [(''title'', \<lparr>h_class = AttributeHandler, h_name = ''title'', h_value = JStr ''t''\<rparr>),
                    (''class'', \<lparr>h_class = ClassHandler, h_name = ''class'', h_value = JStr ''y''\<rparr>),
                    (''lang'', \<lparr>h_class = AttributeHandler, h_name = ''lang'', h_value = JStr ''en''\<rparr>)],
        invoked = []\<rparr>
   \<and> (\<exists>u'. update [(''id'', JStr ''a''), (''title'', JNull), (''class'', JStr ''x'')]
        \<lparr>elem = plain_element ''DIV'',
        handlers = [(''title'', \<lparr>h_class = AttributeHandler, h_name = ''title'', h_value = JStr ''t''\<rparr>),
                    (''class'', \<lparr>h_class = ClassHandler, h_name = ''class'', h_value = JStr ''y''\<rparr>),
                    (''lang'', \<lparr>h_class = AttributeHandler, h_name = ''lang'', h_value = JStr ''en''\<rparr>)],
        invoked = []\<rparr> = Returned u'
      \<and> fst ` set (handlers u') = {''id'', ''class''}
      \<and> table_ok u'
      \<and> filter (\<lambda>i. fst i = ''id'') (invoked u') = [(''id'', JNull, JStr ''a'')])"
proof -
  let ?M = "[(''id'', JStr ''a''), (''title'', JNull), (''class'', JStr ''x'')]"
  let ?u = "\<lparr>elem = plain_element ''DIV'',
        handlers = [(''title'', \<lparr>h_class = AttributeHandler, h_name = ''title'', h_value = JStr ''t''\<rparr>),
                    (''class'', \<lparr>h_class = ClassHandler, h_name = ''class'', h_value = JStr ''y''\<rparr>),
                    (''lang'', \<lparr>h_class = AttributeHandler, h_name = ''lang'', h_value = JStr ''en''\<rparr>)],
        invoked = []\<rparr>"
  have d: "distinct (map fst ?M)" by simp
  have ok: "table_ok ?u" by (simp add: table_ok_def)
  obtain u' where r: "update ?M ?u = Returned u'"
      and h: "map_of (handlers u') ''id'' = Some (makeAttributeHandler (plain_element ''DIV'') ''id'' (JStr ''a''))"
    by (simp add: update_defs handler_defs dom_defs plain_element_def)
  have 1: "{k. \<exists>v. (k, v) \<in> set ?M \<and> v \<noteq> JNull} = {''id'', ''class''}"
    by auto
  note t = handler_table_invariant[OF d ok r]
  have a: "fst ` set (handlers u') = {''id'', ''class''}"
    using t[THEN conjunct1] 1 by simp
  have b: "table_ok u'"
    using t[THEN conjunct2, THEN conjunct2, THEN conjunct1] .
  have c: "filter (\<lambda>i. fst i = ''id'') (invoked u') = [(''id'', JNull, JStr ''a'')]"
    using t[THEN conjunct2, THEN conjunct2, THEN conjunct2, THEN conjunct2, rule_format,
        of "''id''" "makeAttributeHandler (plain_element ''DIV'') ''id'' (JStr ''a'')"] h
    by simp
  from a b c d ok r show ?thesis
    by blast
qed

section \<open>Removing everything\<close>

text \<open>
  An SVG element without a \<^verbatim>\<open>class\<close> attribute: \<^verbatim>\<open>update({class: "foo"})\<close> and then
  \<^verbatim>\<open>update({})\<close>. The removal call of the class handler writes the tokens that are
  left, here none, with \<^verbatim>\<open>setAttribute('class', '')\<close>: the attribute the reconciler
  introduced is still there, empty. (On an HTML element the same happens through
  \<^verbatim>\<open>className\<close>.) And an \<^verbatim>\<open>INPUT\<close> control without the focus:
  \<^verbatim>\<open>update({value: "x"})\<close> assigns \<^verbatim>\<open>"x"\<close> to its value property; the control gets
  the focus; \<^verbatim>\<open>update({})\<close> then calls the handler and empties the table, and the value
  property is still \<^verbatim>\<open>"x"\<close>.
\<close>

theorem removal_completeness_counterexample:
  "attributes ((plain_element ''circle'')\<lparr>ownerSVGElement := True\<rparr>) ''class'' = None
   \<and> update [(''class'', JStr ''foo'')]
       (ElementAttributesUpdater ((plain_element ''circle'')\<lparr>ownerSVGElement := True\<rparr>)) =
     Returned
      \<lparr>elem = (plain_element ''circle'')
         \<lparr>ownerSVGElement := True, attributes := [''class'' \<mapsto> ''foo''],
          calls := [SetAttribute ''class'' (JStr ''foo'')]\<rparr>,
       handlers = [(''class'', \<lparr>h_class = SVGClassHandler, h_name = ''class'', h_value = JStr ''foo''\<rparr>)],
       invoked = [(''class'', JNull, JStr ''foo'')]\<rparr>
   \<and> update []
      \<lparr>elem = (plain_element ''circle'')
         \<lparr>ownerSVGElement := True, attributes := [''class'' \<mapsto> ''foo''],
          calls := [SetAttribute ''class'' (JStr ''foo'')]\<rparr>,
       handlers = [(''class'', \<lparr>h_class = SVGClassHandler, h_name = ''class'', h_value = JStr ''foo''\<rparr>)],
       invoked = [(''class'', JNull, JStr ''foo'')]\<rparr> =
     Returned
      \<lparr>elem = (plain_element ''circle'')
         \<lparr>ownerSVGElement := True, attributes := [''class'' \<mapsto> ''''],
          calls := [SetAttribute ''class'' (JStr ''foo''), SetAttribute ''class'' (JStr '''')]\<rparr>,
       handlers = [],
       invoked = [(''class'', JNull, JStr ''foo''), (''class'', JStr ''foo'', JNull)]\<rparr>
   \<and> update [(''value'', JStr ''x'')] (ElementAttributesUpdater (plain_element ''INPUT'')) =
     Returned
      \<lparr>elem = (plain_element ''INPUT'')\<lparr>valueProp := JStr ''x'', calls := [SetValue (JStr ''x'')]\<rparr>,
       handlers = [(''value'', \<lparr>h_class = ValueHandler, h_name = ''value'', h_value = JStr ''x''\<rparr>)],
       invoked = [(''value'', JNull, JStr ''x'')]\<rparr>
   \<and> update []
      \<lparr>elem = (plain_element ''INPUT'')
         \<lparr>isActiveElement := True, valueProp := JStr ''x'', calls := [SetValue (JStr ''x'')]\<rparr>,
       handlers = [(''value'', \<lparr>h_class = ValueHandler, h_name = ''value'', h_value = JStr ''x''\<rparr>)],
       invoked = [(''value'', JNull, JStr ''x'')]\<rparr> =
     Returned
      \<lparr>elem = (plain_element ''INPUT'')
         \<lparr>isActiveElement := True, valueProp := JStr ''x'', calls := [SetValue (JStr ''x'')]\<rparr>,
       handlers = [],
       invoked = [(''value'', JNull, JStr ''x''), (''value'', JStr ''x'', JNull)]\<rparr>"
  by (simp add: update_defs handler_defs dom_defs plain_element_def)

text \<open>
  C6, as the code has it. For a map \<open>M\<close> of strings and \<^verbatim>\<open>null\<close> and a well-formed
  updater, \<^verbatim>\<open>update(M)\<close> is called, returning or throwing; \<open>e1\<close> is the element when
  \<^verbatim>\<open>update({})\<close> is called next, whatever has happened to it since (to its focus, or to
  its attributes). Then \<^verbatim>\<open>update({})\<close> returns: it calls every tracked handler once, in
  table order, with its remembered value and \<^verbatim>\<open>null\<close>, and leaves the table empty.
  For every tracked value, and so, when \<^verbatim>\<open>update(M)\<close> had returned, for every value of
  \<open>M\<close>, the element is then as \<open>removed_value\<close> says: an attribute of the default or of
  the namespaced strategy is absent; the \<^verbatim>\<open>class\<close> attribute is still there and holds
  the tokens it had on \<open>e1\<close> other than those of the value; a boolean property is
  \<^verbatim>\<open>false\<close> and the value property \<^verbatim>\<open>null\<close> if the control does not hold the focus
  on \<open>e1\<close>, and otherwise they are what they were on \<open>e1\<close>, so that a value pushed before
  the control got the focus stays.
\<close>

theorem removal_completeness:
  assumes "well_typed M" and "wf_updater u0"
    and "tagName e1 = tagName (elem u0)" and "ownerSVGElement e1 = ownerSVGElement (elem u0)"
    and "u1 = (state_of (update M u0))\<lparr>elem := e1\<rparr>"
  shows "\<exists>u2. update [] u1 = Returned u2
      \<and> handlers u2 = []
      \<and> invoked u2 = invoked u1 @ map (\<lambda>kh. (fst kh, h_value (snd kh), JNull)) (handlers u1)
      \<and> (\<forall>kh \<in> set (handlers u1). removed_value e1 (elem u2) (fst kh) (h_value (snd kh)))
      \<and> (\<forall>u. update M u0 = Returned u \<longrightarrow>
            (\<forall>kv \<in> set M. snd kv \<noteq> JNull \<longrightarrow> removed_value e1 (elem u2) (fst kv) (snd kv)))"
proof -
  let ?u = "state_of (update M u0)"
  have dM: "distinct (map fst M)"
    using assms(1) by (simp add: well_typed_def)
  have ok: "table_ok u0"
    by (rule wf_table_ok[OF assms(2)])
  have kd: "node_kind (elem ?u) = node_kind (elem u0)"
    by (rule update_kind)
  have wf1: "wf_updater u1"
    unfolding assms(5) using kd assms(3,4)
    by (intro wf_updater_elem update_wf[OF assms(2,1)]) (simp_all add: node_kind_def)
  have e1: "elem u1 = e1" and h1: "handlers u1 = handlers ?u"
    by (simp_all add: assms(5))
  obtain u2 where r: "update [] u1 = Returned u2"
      and r1: "handlers u2 = []"
      and r2: "invoked u2 = invoked u1 @ map (\<lambda>kh. (fst kh, h_value (snd kh), JNull)) (handlers u1)"
      and r4: "\<forall>kh \<in> set (handlers u1). removed_value e1 (elem u2) (fst kh) (h_value (snd kh))"
    using update_empty_removes[OF wf1] unfolding e1 by blast
  have "\<forall>u. update M u0 = Returned u \<longrightarrow>
            (\<forall>kv \<in> set M. snd kv \<noteq> JNull \<longrightarrow> removed_value e1 (elem u2) (fst kv) (snd kv))"
  proof (intro allI impI ballI)
    fix u kv
    assume u: "update M u0 = Returned u" and kv: "kv \<in> set M" and nn: "snd kv \<noteq> JNull"
    note m = update_map_of[OF u dM ok]
    from kv dM have "map_of M (fst kv) = Some (snd kv)"
      by simp
    with nn obtain h where h: "map_of (handlers u) (fst kv) = Some h" "h_value h = snd kv"
      by (auto simp: m split: option.splits)
    from h(1) have "(fst kv, h) \<in> set (handlers u1)"
      using u by (auto simp: h1 dest: map_of_SomeD)
    with r4 h(2) show "removed_value e1 (elem u2) (fst kv) (snd kv)"
      by force
  qed
  with r r1 r2 r4 show ?thesis
    by blast
qed

theorem removal_completeness_witness:
  "well_typed [(''id'', JStr ''a''), (''class'', JStr ''foo bar'')]
   \<and> wf_updater (ElementAttributesUpdater
        ((plain_element ''P'')\<lparr>attributes := [''class'' \<mapsto> ''x foo'']\<rparr>))
   \<and> (\<exists>u u2. update [(''id'', JStr ''a''), (''class'', JStr ''foo bar'')]
          (ElementAttributesUpdater ((plain_element ''P'')\<lparr>attributes := [''class'' \<mapsto> ''x foo'']\<rparr>)) =
          Returned u
      \<and> attributes (elem u) ''id'' = Some ''a''
      \<and> attributes (elem u) ''class'' = Some ''x foo bar''
      \<and> update [] u = Returned u2
      \<and> handlers u2 = []
      \<and> attributes (elem u2) ''id'' = None
      \<and> attributes (elem u2) ''class'' = Some ''x'')
   \<and> well_typed [(''value'', JStr ''x'')]
   \<and> wf_updater (ElementAttributesUpdater (plain_element ''INPUT''))
   \<and> (\<exists>u u2. update [(''value'', JStr ''x'')] (ElementAttributesUpdater (plain_element ''INPUT'')) =
          Returned u
      \<and> valueProp (elem u) = JStr ''x''
      \<and> update [] (u\<lparr>elem := (elem u)\<lparr>isActiveElement := True\<rparr>\<rparr>) = Returned u2
      \<and> handlers u2 = []
      \<and> valueProp (elem u2) = JStr ''x'')"
proof -
  let ?M = "[(''id'', JStr ''a''), (''class'', JStr ''foo bar'')]"
  let ?e = "(plain_element ''P'')\<lparr>attributes := [''class'' \<mapsto> ''x foo'']\<rparr>"
  let ?N = "[(''value'', JStr ''x'')]"
  let ?i = "plain_element ''INPUT''"
  have wt: "well_typed ?M" and wt': "well_typed ?N"
    by (simp_all add: well_typed_def is_string_def)
  have wf: "wf_updater (ElementAttributesUpdater ?e)"
    and wf': "wf_updater (ElementAttributesUpdater ?i)"
    by (simp_all add: wf_updater_def ElementAttributesUpdater_def)
  obtain u where r: "update ?M (ElementAttributesUpdater ?e) = Returned u"
      and a: "attributes (elem u) ''id'' = Some ''a''" "attributes (elem u) ''class'' = Some ''x foo bar''"
      and t: "tagName (elem u) = ''P''" "ownerSVGElement (elem u) = False"
    by (simp add: update_defs handler_defs dom_defs plain_element_def)
  have t0: "tagName (elem u) = tagName (elem (ElementAttributesUpdater ?e))"
      "ownerSVGElement (elem u) = ownerSVGElement (elem (ElementAttributesUpdater ?e))"
    using t by (simp_all add: ElementAttributesUpdater_def plain_element_def)
  have u: "u = (state_of (update ?M (ElementAttributesUpdater ?e)))\<lparr>elem := elem u\<rparr>"
    using r by simp
  from removal_completeness[OF wt wf t0 u] r
  obtain u2 where u2: "update [] u = Returned u2" "handlers u2 = []"
      and all: "\<forall>kv \<in> set ?M. snd kv \<noteq> JNull \<longrightarrow> removed_value (elem u) (elem u2) (fst kv) (snd kv)"
    by auto
  from all have "removed_value (elem u) (elem u2) ''id'' (JStr ''a'')"
      and "removed_value (elem u) (elem u2) ''class'' (JStr ''foo bar'')"
    by simp_all
  then have b: "attributes (elem u2) ''id'' = None" "attributes (elem u2) ''class'' = Some ''x''"
    using a t
    by (simp_all add: removed_value_def makeAttributeHandler_def isSVGElement_def className_def
        tokens_def ToString_def)
  obtain w where r': "update ?N (ElementAttributesUpdater ?i) = Returned w"
      and v: "valueProp (elem w) = JStr ''x''"
      and t': "tagName (elem w) = ''INPUT''" "ownerSVGElement (elem w) = False"
    by (simp add: update_defs handler_defs dom_defs plain_element_def)
  let ?w1 = "w\<lparr>elem := (elem w)\<lparr>isActiveElement := True\<rparr>\<rparr>"
  have t0': "tagName ((elem w)\<lparr>isActiveElement := True\<rparr>) = tagName (elem (ElementAttributesUpdater ?i))"
      "ownerSVGElement ((elem w)\<lparr>isActiveElement := True\<rparr>) =
        ownerSVGElement (elem (ElementAttributesUpdater ?i))"
    using t' by (simp_all add: ElementAttributesUpdater_def plain_element_def)
  have w: "?w1 = (state_of (update ?N (ElementAttributesUpdater ?i)))\<lparr>elem := (elem w)\<lparr>isActiveElement := True\<rparr>\<rparr>"
    using r' by simp
  from removal_completeness[OF wt' wf' t0' w] r'
  obtain w2 where w2: "update [] ?w1 = Returned w2" "handlers w2 = []"
      and all': "\<forall>kv \<in> set ?N. snd kv \<noteq> JNull \<longrightarrow>
          removed_value ((elem w)\<lparr>isActiveElement := True\<rparr>) (elem w2) (fst kv) (snd kv)"
    by auto
  from all' have "removed_value ((elem w)\<lparr>isActiveElement := True\<rparr>) (elem w2) ''value'' (JStr ''x'')"
    by simp
  then have c: "valueProp (elem w2) = JStr ''x''"
    using v t' by (simp add: removed_value_def makeAttributeHandler_def)
  from wt wf r a u2 b have 1: "\<exists>u u2. update ?M (ElementAttributesUpdater ?e) = Returned u
      \<and> attributes (elem u) ''id'' = Some ''a''
      \<and> attributes (elem u) ''class'' = Some ''x foo bar''
      \<and> update [] u = Returned u2
      \<and> handlers u2 = []
      \<and> attributes (elem u2) ''id'' = None
      \<and> attributes (elem u2) ''class'' = Some ''x''"
    by blast
  from r' v w2 c have 2: "\<exists>u u2. update ?N (ElementAttributesUpdater ?i) = Returned u
      \<and> valueProp (elem u) = JStr ''x''
      \<and> update [] (u\<lparr>elem := (elem u)\<lparr>isActiveElement := True\<rparr>\<rparr>) = Returned u2
      \<and> handlers u2 = []
      \<and> valueProp (elem u2) = JStr ''x''"
    by blast
  from wt wf 1 wt' wf' 2 show ?thesis
    by (intro conjI)
qed

end
